theory Spec2Isabelle
  imports Complex_Main "HOL-Library.AList" "HOL-Library.Product_Lexorder"
begin

section \<open>Network synthesis engine\<close>

text \<open>
  A shallow embedding of \<^verbatim>\<open>backend/build_graph.py\<close>, \<^verbatim>\<open>backend/mst.py\<close> and
  \<^verbatim>\<open>backend/candidate_generation.py\<close>.

  Conventions of the embedding:
  \<^item> node indices are positions in the coordinate array, hence natural numbers;
  \<^item> Python floats are modelled by the reals: comparisons and sums are exact, and
    rounding error, infinities and NaN are outside the model;
  \<^item> a \<^verbatim>\<open>networkx.DiGraph\<close> is the list of its nodes (in insertion order) together with
    an association list from ordered pairs of nodes to the attribute dictionary of the edge,
    in the order in which the edges were added (networkx lists the edges grouped by their
    tail node, which is a permutation of that order; no theorem depends on the order);
  \<^item> an exception is a value \<open>Inl e\<close> of a sum type.
\<close>

subsection \<open>Exceptions\<close>

datatype py_error =
    NetworkXError
  | NetworkXException
  | NetworkXPointlessConcept
  | IndexError
  | ValueError
  | QhullError

subsection \<open>Directed graphs with edge attributes\<close>

type_synonym node = nat

text \<open>The three attributes every edge of the program carries:
  \<^verbatim>\<open>weight\<close>, \<^verbatim>\<open>length\<close> and \<^verbatim>\<open>voltage\<close>.\<close>

record edge_attr =
  weight :: real
  length_m :: real
  voltage :: string

record digraph =
  nodes :: "node list"
  edges :: "((node \<times> node) \<times> edge_attr) list"

definition empty_digraph :: digraph where
  "empty_digraph = \<lparr>nodes = [], edges = []\<rparr>"

definition edge_rel :: "digraph \<Rightarrow> (node \<times> node) set" where
  "edge_rel G = set (map fst (edges G))"

text \<open>\<^verbatim>\<open>G.out_degree(n)\<close> and \<^verbatim>\<open>G.in_degree(n)\<close>.\<close>

definition out_degree :: "digraph \<Rightarrow> node \<Rightarrow> nat" where
  "out_degree G n = length (filter (\<lambda>e. fst (fst e) = n) (edges G))"

definition in_degree :: "digraph \<Rightarrow> node \<Rightarrow> nat" where
  "in_degree G n = length (filter (\<lambda>e. snd (fst e) = n) (edges G))"

text \<open>\<^verbatim>\<open>G.predecessors(n)\<close>, \<^verbatim>\<open>G.remove_edge(u, v)\<close> and \<^verbatim>\<open>G.remove_node(n)\<close>; the
  last one also drops every edge that touches the node.\<close>

definition predecessors :: "digraph \<Rightarrow> node \<Rightarrow> node list" where
  "predecessors G n = map (\<lambda>e. fst (fst e)) (filter (\<lambda>e. snd (fst e) = n) (edges G))"

definition remove_edge :: "digraph \<Rightarrow> node \<Rightarrow> node \<Rightarrow> digraph" where
  "remove_edge G u v = G\<lparr>edges := filter (\<lambda>e. fst e \<noteq> (u, v)) (edges G)\<rparr>"

definition remove_node :: "digraph \<Rightarrow> node \<Rightarrow> digraph" where
  "remove_node G n =
     \<lparr>nodes = removeAll n (nodes G),
      edges = filter (\<lambda>e. fst (fst e) \<noteq> n \<and> snd (fst e) \<noteq> n) (edges G)\<rparr>"

text \<open>\<^verbatim>\<open>nx.descendants(G, n)\<close>: every node reachable from \<open>n\<close> along at least one edge,
  \<open>n\<close> itself excluded.\<close>

definition descendants :: "digraph \<Rightarrow> node \<Rightarrow> node set" where
  "descendants G n = ((edge_rel G)\<^sup>+ `` {n}) - {n}"

subsection \<open>\<^verbatim>\<open>prune_dead_end_pole_branches\<close>\<close>

text \<open>
  The body of the \<^verbatim>\<open>for leaf in leaves\<close> loop, on the state made of the working copy of
  the graph and the flag \<^verbatim>\<open>removed\<close>. \<^verbatim>\<open>nx.descendants\<close> raises \<^verbatim>\<open>NetworkXError\<close> for a
  node that is not in the graph; once it has returned, the calls that follow it
  (\<^verbatim>\<open>predecessors\<close>, \<^verbatim>\<open>remove_edge\<close> on an edge just listed, \<^verbatim>\<open>remove_node\<close>) cannot raise.
\<close>

definition prune_leaf ::
  "node list \<Rightarrow> node list \<Rightarrow> digraph \<times> bool \<Rightarrow> node \<Rightarrow> py_error + digraph \<times> bool" where
  "prune_leaf pole_indices terminal_indices s leaf =
     (case s of (arbo, removed) \<Rightarrow>
        if leaf \<in> set pole_indices then
          if leaf \<notin> set (nodes arbo) then Inl NetworkXError
          else if \<not> (\<exists>d \<in> descendants arbo leaf \<union> {leaf}. d \<in> set terminal_indices) then
            Inr (remove_node
                   (fold (\<lambda>pred g. remove_edge g pred leaf) (predecessors arbo leaf) arbo)
                   leaf,
                 True)
          else Inr (arbo, removed)
        else Inr (arbo, removed))"

fun prune_leaves ::
  "node list \<Rightarrow> node list \<Rightarrow> node list \<Rightarrow> digraph \<times> bool \<Rightarrow> py_error + digraph \<times> bool" where
  "prune_leaves pole_indices terminal_indices [] s = Inr s"
| "prune_leaves pole_indices terminal_indices (leaf # leaves) s =
     (case prune_leaf pole_indices terminal_indices s leaf of
        Inl e \<Rightarrow> Inl e
      | Inr s' \<Rightarrow> prune_leaves pole_indices terminal_indices leaves s')"

text \<open>\<^verbatim>\<open>leaves = [n for n in arbo.nodes() if arbo.out_degree(n) == 0]\<close>\<close>

definition leaves_of :: "digraph \<Rightarrow> node list" where
  "leaves_of arbo = filter (\<lambda>n. out_degree arbo n = 0) (nodes arbo)"

text \<open>Facts about one pass, needed for the termination of the \<^verbatim>\<open>while removed\<close> loop.\<close>

lemma nodes_fold_remove_edge:
  "nodes (fold (\<lambda>pred g. remove_edge g pred leaf) ps G) = nodes G"
  by (induction ps arbitrary: G) (simp_all add: remove_edge_def)

lemma edges_fold_remove_edge:
  "edges (fold (\<lambda>pred g. remove_edge g pred leaf) ps G) =
     filter (\<lambda>e. \<not> (snd (fst e) = leaf \<and> fst (fst e) \<in> set ps)) (edges G)"
proof (induction ps arbitrary: G)
  case Nil
  then show ?case by simp
next
  case (Cons p ps)
  have "filter (\<lambda>e. \<not> (snd (fst e) = leaf \<and> fst (fst e) \<in> set ps))
          (filter (\<lambda>e. fst e \<noteq> (p, leaf)) (edges G)) =
        filter (\<lambda>e. \<not> (snd (fst e) = leaf \<and> fst (fst e) \<in> set (p # ps))) (edges G)"
    by (auto simp: prod_eq_iff intro!: filter_cong)
  with Cons show ?case by (simp add: remove_edge_def)
qed

lemma remove_node_after_remove_edges:
  "remove_node (fold (\<lambda>pred g. remove_edge g pred leaf) ps G) leaf = remove_node G leaf"
proof -
  have "filter (\<lambda>e. fst (fst e) \<noteq> leaf \<and> snd (fst e) \<noteq> leaf)
          (filter (\<lambda>e. \<not> (snd (fst e) = leaf \<and> fst (fst e) \<in> set ps)) (edges G)) =
        filter (\<lambda>e. fst (fst e) \<noteq> leaf \<and> snd (fst e) \<noteq> leaf) (edges G)"
    by (auto intro!: filter_cong)
  then show ?thesis
    by (simp add: remove_node_def nodes_fold_remove_edge edges_fold_remove_edge)
qed

lemma prune_leaf_cases:
  assumes "prune_leaf P T (G, r) l = Inr (G', r')"
  shows "(G' = G \<and> r' = r) \<or>
         (l \<in> set P \<and> l \<in> set (nodes G) \<and> G' = remove_node G l \<and> r')"
  using assms
  by (auto simp: prune_leaf_def remove_node_after_remove_edges split: if_splits)

lemma length_removeAll_less:
  "x \<in> set xs \<Longrightarrow> length (removeAll x xs) < length xs"
  by (induction xs) (auto simp: less_Suc_eq_le length_removeAll_less_eq)

lemma prune_leaf_nodes_le:
  assumes "prune_leaf P T (G, r) l = Inr (G', r')"
  shows "length (nodes G') \<le> length (nodes G) \<and>
         (r' \<longrightarrow> r \<or> length (nodes G') < length (nodes G))"
  using prune_leaf_cases[OF assms]
  by (auto simp: remove_node_def dest: length_removeAll_less)

lemma prune_leaves_nodes_le:
  "prune_leaves P T ls (G, r) = Inr (G', r') \<Longrightarrow>
     length (nodes G') \<le> length (nodes G) \<and>
     (r' \<longrightarrow> r \<or> length (nodes G') < length (nodes G))"
proof (induction ls arbitrary: G r)
  case Nil
  then show ?case by simp
next
  case (Cons l ls)
  from Cons.prems obtain G1 r1 where
    step: "prune_leaf P T (G, r) l = Inr (G1, r1)" and
    rest: "prune_leaves P T ls (G1, r1) = Inr (G', r')"
    by (auto split: sum.splits)
  from prune_leaf_nodes_le[OF step] Cons.IH[OF rest] show ?case by auto
qed

text \<open>
  The \<^verbatim>\<open>while removed\<close> loop: a pass over the leaves of the current graph, repeated as
  long as the pass has removed a node. Every repetition has removed at least one node,
  which is the measure of the termination proof.
\<close>

function prune_loop :: "digraph \<Rightarrow> node list \<Rightarrow> node list \<Rightarrow> py_error + digraph" where
  "prune_loop arbo pole_indices terminal_indices =
     (case prune_leaves pole_indices terminal_indices (leaves_of arbo) (arbo, False) of
        Inl e \<Rightarrow> Inl e
      | Inr (arbo', removed) \<Rightarrow>
          if removed then prune_loop arbo' pole_indices terminal_indices else Inr arbo')"
  by pat_completeness auto
termination
  apply (relation "measure (\<lambda>(G, P, T). length (nodes G))")
   apply simp
  subgoal for arbo P T x2 x y
    using prune_leaves_nodes_le[of P T "leaves_of arbo" arbo False x y] by simp
  done

declare prune_loop.simps [simp del]

text \<open>\<^verbatim>\<open>arbo = arbo.copy()\<close> is the identity on values.\<close>

definition prune_dead_end_pole_branches ::
  "digraph \<Rightarrow> node list \<Rightarrow> node list \<Rightarrow> py_error + digraph" where
  "prune_dead_end_pole_branches arbo pole_indices terminal_indices =
     prune_loop arbo pole_indices terminal_indices"

subsection \<open>Example trees\<close>

text \<open>Source 0, terminal 1, poles 3 and 4: the source feeds pole 3, which serves the
  terminal and feeds pole 4, a dead end.\<close>

definition ex_tree :: digraph where
  "ex_tree =
     \<lparr>nodes = [0, 3, 1, 4],
      edges = [((0, 3), \<lparr>weight = 50, length_m = 50, voltage = ''high''\<rparr>),
               ((3, 1), \<lparr>weight = 30, length_m = 30, voltage = ''low''\<rparr>),
               ((3, 4), \<lparr>weight = 130, length_m = 30, voltage = ''high''\<rparr>)]\<rparr>"

definition ex_pruned :: digraph where
  "ex_pruned =
     \<lparr>nodes = [0, 3, 1],
      edges = [((0, 3), \<lparr>weight = 50, length_m = 50, voltage = ''high''\<rparr>),
               ((3, 1), \<lparr>weight = 30, length_m = 30, voltage = ''low''\<rparr>)]\<rparr>"

lemma prune_ex_tree:
  "prune_dead_end_pole_branches ex_tree [3, 4] [1, 2] = Inr ex_pruned"
  by code_simp

section \<open>One pass of the pruner, in closed form\<close>

text \<open>Removing a list of nodes at once, and the leaves a pass removes: the poles among
  the leaves that are not terminals.\<close>

definition remove_nodes :: "digraph \<Rightarrow> node list \<Rightarrow> digraph" where
  "remove_nodes G D =
     \<lparr>nodes = filter (\<lambda>n. n \<notin> set D) (nodes G),
      edges = filter (\<lambda>e. fst (fst e) \<notin> set D \<and> snd (fst e) \<notin> set D) (edges G)\<rparr>"

definition dead_leaves :: "digraph \<Rightarrow> node list \<Rightarrow> node list \<Rightarrow> node list" where
  "dead_leaves G P T = filter (\<lambda>n. n \<in> set P \<and> n \<notin> set T) (leaves_of G)"

lemma out_degree_0_iff: "out_degree G n = 0 \<longleftrightarrow> (\<forall>v. (n, v) \<notin> edge_rel G)"
  by (force simp: out_degree_def edge_rel_def filter_empty_conv)

lemma descendants_leaf: "out_degree G n = 0 \<Longrightarrow> descendants G n = {}"
  by (auto simp: descendants_def out_degree_0_iff dest: tranclD)

lemma prune_leaf_on_leaf:
  assumes "l \<in> set (nodes G)" "out_degree G l = 0"
  shows "prune_leaf P T (G, r) l =
           Inr (if l \<in> set P \<and> l \<notin> set T then (remove_node G l, True) else (G, r))"
  using assms
  by (simp add: prune_leaf_def descendants_leaf remove_node_after_remove_edges)

lemma remove_nodes_Nil: "remove_nodes G [] = G"
  by (simp add: remove_nodes_def)

lemma remove_nodes_Cons: "remove_nodes (remove_node G l) D = remove_nodes G (l # D)"
  by (auto simp: remove_nodes_def remove_node_def removeAll_filter_not_eq intro!: filter_cong)

lemma out_degree_remove_node:
  "out_degree G n = 0 \<Longrightarrow> out_degree (remove_node G l) n = 0"
  by (simp add: out_degree_def remove_node_def filter_empty_conv)

lemma prune_leaves_round:
  assumes "distinct ls" "set ls \<subseteq> set (nodes G)" "\<forall>l\<in>set ls. out_degree G l = 0"
  shows "prune_leaves P T ls (G, r) =
           Inr (remove_nodes G (filter (\<lambda>n. n \<in> set P \<and> n \<notin> set T) ls),
                r \<or> filter (\<lambda>n. n \<in> set P \<and> n \<notin> set T) ls \<noteq> [])"
  using assms
proof (induction ls arbitrary: G r)
  case Nil
  then show ?case by (simp add: remove_nodes_Nil)
next
  case (Cons l ls)
  have l: "l \<in> set (nodes G)" "out_degree G l = 0" using Cons.prems by auto
  show ?case
  proof (cases "l \<in> set P \<and> l \<notin> set T")
    case True
    have "set ls \<subseteq> set (nodes (remove_node G l))"
      using Cons.prems by (auto simp: remove_node_def)
    moreover have "\<forall>x\<in>set ls. out_degree (remove_node G l) x = 0"
      using Cons.prems by (simp add: out_degree_remove_node)
    moreover have "distinct ls" using Cons.prems by simp
    ultimately have "prune_leaves P T ls (remove_node G l, True) =
        Inr (remove_nodes (remove_node G l) (filter (\<lambda>n. n \<in> set P \<and> n \<notin> set T) ls), True)"
      using Cons.IH[of "remove_node G l" True] by simp
    then show ?thesis
      using True by (simp add: prune_leaf_on_leaf[OF l] remove_nodes_Cons)
  next
    case False
    have "prune_leaves P T ls (G, r) =
        Inr (remove_nodes G (filter (\<lambda>n. n \<in> set P \<and> n \<notin> set T) ls),
             r \<or> filter (\<lambda>n. n \<in> set P \<and> n \<notin> set T) ls \<noteq> [])"
      using Cons.prems by (intro Cons.IH) auto
    moreover have "filter (\<lambda>n. n \<in> set P \<and> n \<notin> set T) (l # ls) =
        filter (\<lambda>n. n \<in> set P \<and> n \<notin> set T) ls"
      using False by auto
    moreover have "prune_leaf P T (G, r) l = Inr (G, r)"
      using False prune_leaf_on_leaf[OF l, of P T r] by auto
    ultimately show ?thesis
      by (simp only: prune_leaves.simps sum.case)
  qed
qed

lemma prune_round:
  assumes "distinct (nodes G)"
  shows "prune_leaves P T (leaves_of G) (G, False) =
           Inr (remove_nodes G (dead_leaves G P T), dead_leaves G P T \<noteq> [])"
proof -
  have 1: "distinct (leaves_of G)" using assms by (simp add: leaves_of_def)
  have 2: "set (leaves_of G) \<subseteq> set (nodes G)" by (simp add: leaves_of_def)
  have 3: "\<forall>l\<in>set (leaves_of G). out_degree G l = 0" by (simp add: leaves_of_def)
  show ?thesis
    using prune_leaves_round[OF 1 2 3, of P T False] by (simp add: dead_leaves_def)
qed

lemma prune_loop_unfold:
  assumes "distinct (nodes G)"
  shows "prune_loop G P T =
           (if dead_leaves G P T \<noteq> [] then prune_loop (remove_nodes G (dead_leaves G P T)) P T
            else Inr G)"
  by (subst prune_loop.simps) (simp add: prune_round[OF assms] remove_nodes_Nil)

lemma distinct_remove_nodes: "distinct (nodes G) \<Longrightarrow> distinct (nodes (remove_nodes G D))"
  by (simp add: remove_nodes_def)

lemma length_remove_dead_leaves:
  assumes "dead_leaves G P T \<noteq> []"
  shows "length (nodes (remove_nodes G (dead_leaves G P T))) < length (nodes G)"
proof -
  from assms obtain d where "d \<in> set (dead_leaves G P T)"
    by (cases "dead_leaves G P T") auto
  then have "d \<in> set (nodes G)" "d \<in> set (dead_leaves G P T)"
    by (auto simp: dead_leaves_def leaves_of_def)
  then show ?thesis
    unfolding remove_nodes_def by (auto intro!: length_filter_less)
qed

text \<open>The pruner returns on every graph whose node list has no repetition (as the node
  view of a \<^verbatim>\<open>networkx\<close> graph always is): the error branch is never taken.\<close>

lemma prune_loop_total:
  "distinct (nodes G) \<Longrightarrow> \<exists>G'. prune_loop G P T = Inr G'"
proof (induction "length (nodes G)" arbitrary: G rule: less_induct)
  case less
  show ?case
  proof (cases "dead_leaves G P T = []")
    case True
    then show ?thesis using prune_loop_unfold[OF less.prems, of P T] by simp
  next
    case False
    from less.hyps[OF length_remove_dead_leaves[OF False] distinct_remove_nodes[OF less.prems]]
    show ?thesis using False prune_loop_unfold[OF less.prems, of P T] by simp
  qed
qed

text \<open>With no assumption on the graph: a graph that is returned is a fixed point of a
  pass.\<close>

lemma prune_leaves_flag:
  "prune_leaves P T ls (G, r) = Inr (G', r') \<Longrightarrow> (r \<longrightarrow> r') \<and> (\<not> r' \<longrightarrow> G' = G)"
proof (induction ls arbitrary: G r)
  case Nil
  then show ?case by simp
next
  case (Cons l ls)
  from Cons.prems obtain G1 r1 where
    step: "prune_leaf P T (G, r) l = Inr (G1, r1)" and
    rest: "prune_leaves P T ls (G1, r1) = Inr (G', r')"
    by (auto split: sum.splits)
  from prune_leaf_cases[OF step] Cons.IH[OF rest] show ?case by auto
qed

lemma prune_loop_fixed:
  "prune_loop G P T = Inr G' \<Longrightarrow> prune_leaves P T (leaves_of G') (G', False) = Inr (G', False)"
proof (induction G P T rule: prune_loop.induct)
  case (1 G P T)
  show ?case
  proof (cases "prune_leaves P T (leaves_of G) (G, False)")
    case (Inl e)
    with "1.prems" show ?thesis by (subst (asm) prune_loop.simps) simp
  next
    case (Inr s)
    obtain G1 r1 where s: "s = (G1, r1)" by (cases s)
    show ?thesis
    proof (cases r1)
      case True
      with Inr s "1.prems" have "prune_loop G1 P T = Inr G'"
        by (subst (asm) prune_loop.simps) simp
      with "1.IH"[OF Inr s[symmetric] True] show ?thesis by simp
    next
      case False
      with Inr s "1.prems" have "G' = G1"
        by (subst (asm) prune_loop.simps) simp
      moreover from prune_leaves_flag[of P T "leaves_of G" G False G1 r1] Inr s False
      have "G1 = G" by simp
      ultimately show ?thesis using Inr s False by simp
    qed
  qed
qed

lemma prune_loop_idem:
  "prune_loop G P T = Inr G' \<Longrightarrow> prune_loop G' P T = Inr G'"
  by (subst prune_loop.simps) (simp add: prune_loop_fixed)

section \<open>Idempotence of the pruner\<close>

text \<open>
  C7. Pruning is idempotent: for every graph (in particular every arborescence), every
  list of pole indices and every list of terminal indices, the pruner returns a graph,
  and the pruner applied to that graph returns it unchanged: the same nodes in the same
  order, the same edges with the same attributes. The only assumption is the data
  structure's own invariant that no node is listed twice.
\<close>

theorem prune_idempotent:
  assumes "distinct (nodes arbo)"
  shows "\<exists>pruned.
           prune_dead_end_pole_branches arbo pole_indices terminal_indices = Inr pruned \<and>
           prune_dead_end_pole_branches pruned pole_indices terminal_indices = Inr pruned"
proof -
  from prune_loop_total[OF assms] obtain pruned where
    "prune_loop arbo pole_indices terminal_indices = Inr pruned" by blast
  then show ?thesis
    unfolding prune_dead_end_pole_branches_def by (blast intro: prune_loop_idem)
qed

theorem prune_idempotent_witness:
  "distinct (nodes ex_tree) \<and>
   prune_dead_end_pole_branches ex_tree [3, 4] [1, 2] = Inr ex_pruned \<and>
   prune_dead_end_pole_branches ex_pruned [3, 4] [1, 2] = Inr ex_pruned"
proof -
  have d: "distinct (nodes ex_tree)" by (simp add: ex_tree_def)
  from prune_idempotent[OF d, of "[3, 4]" "[1, 2]"] obtain pruned where
    p: "prune_dead_end_pole_branches ex_tree [3, 4] [1, 2] = Inr pruned"
       "prune_dead_end_pole_branches pruned [3, 4] [1, 2] = Inr pruned"
    by blast
  from p(1) have "pruned = ex_pruned"
    by (simp only: prune_ex_tree sum.inject)
  with p d show ?thesis by blast
qed

section \<open>The pruner against the simpler algorithm\<close>

text \<open>
  The simpler algorithm, in the words of the claim: repeatedly remove every node in
  \<^verbatim>\<open>pole_indices\<close> whose out-degree is zero, together with its incoming edges, until none
  remains. One repetition removes all such nodes of the current graph.
\<close>

definition remove_pole_leaves :: "digraph \<Rightarrow> node list \<Rightarrow> digraph" where
  "remove_pole_leaves G pole_indices =
     (let dead = filter (\<lambda>n. n \<in> set pole_indices \<and> out_degree G n = 0) (nodes G)
      in \<lparr>nodes = filter (\<lambda>n. n \<notin> set dead) (nodes G),
          edges = filter (\<lambda>e. snd (fst e) \<notin> set dead) (edges G)\<rparr>)"

function prune_simple :: "digraph \<Rightarrow> node list \<Rightarrow> digraph" where
  "prune_simple G pole_indices =
     (if \<exists>n \<in> set (nodes G). n \<in> set pole_indices \<and> out_degree G n = 0
      then prune_simple (remove_pole_leaves G pole_indices) pole_indices
      else G)"
  by pat_completeness auto
termination
proof (relation "measure (\<lambda>(G, P). length (nodes G))")
  show "wf (measure (\<lambda>(G, P). length (nodes G)))" by simp
next
  fix G :: digraph and pole_indices :: "node list"
  assume "\<exists>n \<in> set (nodes G). n \<in> set pole_indices \<and> out_degree G n = 0"
  then obtain n where n: "n \<in> set (nodes G)" "n \<in> set pole_indices" "out_degree G n = 0"
    by blast
  have "length (nodes (remove_pole_leaves G pole_indices)) < length (nodes G)"
    unfolding remove_pole_leaves_def Let_def using n
    by (auto intro!: length_filter_less)
  then show "((remove_pole_leaves G pole_indices, pole_indices), (G, pole_indices))
               \<in> measure (\<lambda>(G, P). length (nodes G))"
    by simp
qed

declare prune_simple.simps [simp del]

lemma dead_leaves_disjoint:
  assumes "set P \<inter> set T = {}"
  shows "dead_leaves G P T = filter (\<lambda>n. n \<in> set P \<and> out_degree G n = 0) (nodes G)"
  using assms by (auto simp: dead_leaves_def leaves_of_def intro!: filter_cong)

lemma remove_dead_leaves_disjoint:
  assumes "set P \<inter> set T = {}"
  shows "remove_nodes G (dead_leaves G P T) = remove_pole_leaves G P"
proof -
  have "filter (\<lambda>e. fst (fst e) \<notin> set (dead_leaves G P T) \<and> snd (fst e) \<notin> set (dead_leaves G P T)) (edges G)
      = filter (\<lambda>e. snd (fst e) \<notin> set (dead_leaves G P T)) (edges G)"
  proof (rule filter_cong[OF refl])
    fix e assume e: "e \<in> set (edges G)"
    have "fst (fst e) \<notin> set (dead_leaves G P T)"
    proof
      assume "fst (fst e) \<in> set (dead_leaves G P T)"
      then have "out_degree G (fst (fst e)) = 0"
        by (simp add: dead_leaves_def leaves_of_def)
      then have "(fst (fst e), snd (fst e)) \<notin> edge_rel G"
        unfolding out_degree_0_iff by blast
      with e show False by (auto simp: edge_rel_def)
    qed
    then show "(fst (fst e) \<notin> set (dead_leaves G P T) \<and> snd (fst e) \<notin> set (dead_leaves G P T))
       = (snd (fst e) \<notin> set (dead_leaves G P T))" by simp
  qed
  then show ?thesis
    by (simp add: remove_nodes_def remove_pole_leaves_def Let_def dead_leaves_disjoint[OF assms, symmetric])
qed

lemma prune_loop_simple:
  "set P \<inter> set T = {} \<Longrightarrow> distinct (nodes G) \<Longrightarrow>
     prune_loop G P T = Inr (prune_simple G P)"
proof (induction G P rule: prune_simple.induct)
  case (1 G P)
  note disj = "1.prems"(1) and dist = "1.prems"(2)
  show ?case
  proof (cases "\<exists>n \<in> set (nodes G). n \<in> set P \<and> out_degree G n = 0")
    case True
    then have ne: "dead_leaves G P T \<noteq> []"
      by (auto simp: dead_leaves_disjoint[OF disj] filter_empty_conv)
    have d: "distinct (nodes (remove_pole_leaves G P))"
      using dist by (simp add: remove_pole_leaves_def Let_def)
    have "prune_loop G P T = prune_loop (remove_pole_leaves G P) P T"
      using prune_loop_unfold[OF dist, of P T] ne
      by (simp add: remove_dead_leaves_disjoint[OF disj])
    also have "\<dots> = Inr (prune_simple (remove_pole_leaves G P) P)"
      using "1.IH"[OF True disj d] .
    also have "prune_simple (remove_pole_leaves G P) P = prune_simple G P"
      by (subst (2) prune_simple.simps) (simp only: True if_True)
    finally show ?thesis .
  next
    case False
    then have e: "dead_leaves G P T = []"
      by (auto simp: dead_leaves_disjoint[OF disj] filter_empty_conv)
    have "prune_simple G P = G"
      by (subst prune_simple.simps) (simp only: False if_False)
    then show ?thesis
      using prune_loop_unfold[OF dist, of P T] e by simp
  qed
qed

text \<open>
  C10. When the pole indices and the terminal indices are disjoint, the descendant check
  is vacuous at every leaf that is a pole (the descendant set of a leaf, with the leaf
  itself, is the singleton of the leaf, and the leaf is no terminal), and the whole
  procedure returns exactly what the simpler algorithm returns: it repeatedly removes
  every pole of out-degree zero, with its incoming edges, until none remains.
\<close>

theorem prune_refines_simple:
  assumes "set pole_indices \<inter> set terminal_indices = {}" and "distinct (nodes arbo)"
  shows "prune_dead_end_pole_branches arbo pole_indices terminal_indices =
           Inr (prune_simple arbo pole_indices) \<and>
         (\<forall>leaf \<in> set pole_indices. out_degree arbo leaf = 0 \<longrightarrow>
            descendants arbo leaf \<union> {leaf} = {leaf} \<and> leaf \<notin> set terminal_indices)"
  using assms prune_loop_simple[OF assms]
  by (auto simp: prune_dead_end_pole_branches_def descendants_leaf)

lemma prune_simple_ex_tree: "prune_simple ex_tree [3, 4] = ex_pruned"
  by code_simp

theorem prune_refines_simple_witness:
  "set [3, 4] \<inter> set [1, 2] = ({} :: nat set) \<and> distinct (nodes ex_tree) \<and>
   prune_dead_end_pole_branches ex_tree [3, 4] [1, 2] = Inr (prune_simple ex_tree [3, 4]) \<and>
   prune_simple ex_tree [3, 4] = ex_pruned"
proof -
  have a: "set [3, 4] \<inter> set [1, 2] = ({} :: nat set)" by simp
  have d: "distinct (nodes ex_tree)" by (simp add: ex_tree_def)
  from prune_refines_simple[OF a d] a d prune_simple_ex_tree show ?thesis by blast
qed

section \<open>Arborescences\<close>

text \<open>
  The data structure's invariant, and an arborescence as the specification defines it: a
  root with no incoming edge, from which every other node is reachable, every other node
  having exactly one incoming edge.
\<close>

definition wf_digraph :: "digraph \<Rightarrow> bool" where
  "wf_digraph G \<longleftrightarrow>
     distinct (nodes G) \<and> distinct (map fst (edges G)) \<and>
     (\<forall>e \<in> set (edges G). fst (fst e) \<in> set (nodes G) \<and> snd (fst e) \<in> set (nodes G))"

definition is_arborescence :: "digraph \<Rightarrow> bool" where
  "is_arborescence G \<longleftrightarrow>
     wf_digraph G \<and>
     (\<exists>root \<in> set (nodes G).
        in_degree G root = 0 \<and>
        (\<forall>v \<in> set (nodes G). v \<noteq> root \<longrightarrow> in_degree G v = 1 \<and> (root, v) \<in> (edge_rel G)\<^sup>+))"





section \<open>What the pruner leaves\<close>












section \<open>\<^verbatim>\<open>build_directed_graph_for_arborescence\<close>\<close>

text \<open>The module constants the code reads (the two \<^verbatim>\<open>MIN_\<close> constants are never
  read: the lower bound of every test is the literal \<^verbatim>\<open>0.1\<close>).\<close>

definition MAX_POLE_TO_TERMINAL :: real where
  "MAX_POLE_TO_TERMINAL = 100"

definition MAX_POLE_TO_POLE :: real where
  "MAX_POLE_TO_POLE = 150"

text \<open>\<^verbatim>\<open>dist_matrix[i, j]\<close> on a two-dimensional array, given as the list of its rows; an
  index out of range raises \<^verbatim>\<open>IndexError\<close>.\<close>

definition dist_at :: "real list list \<Rightarrow> nat \<Rightarrow> nat \<Rightarrow> py_error + real" where
  "dist_at dist_matrix i j =
     (if i < length dist_matrix \<and> j < length (dist_matrix ! i)
      then Inr (dist_matrix ! i ! j) else Inl IndexError)"

text \<open>\<^verbatim>\<open>DG.add_edge(u, v, weight=w, length=d, voltage=x)\<close>: both end points become nodes
  if they are not yet, and the attributes of an edge that exists are overwritten.\<close>

definition add_node :: "node list \<Rightarrow> node \<Rightarrow> node list" where
  "add_node ns n = (if n \<in> set ns then ns else ns @ [n])"

definition add_edge :: "digraph \<Rightarrow> node \<Rightarrow> node \<Rightarrow> edge_attr \<Rightarrow> digraph" where
  "add_edge G u v a =
     \<lparr>nodes = add_node (add_node (nodes G) u) v,
      edges = AList.update (u, v) a (edges G)\<rparr>"

text \<open>The three loops of the builder. The loop over index pairs \<^verbatim>\<open>i < j\<close> of
  \<^verbatim>\<open>pole_indices\<close> is the recursion over the list and its tails.\<close>

fun pole_terminal_inner ::
  "real list list \<Rightarrow> node \<Rightarrow> node list \<Rightarrow> digraph \<Rightarrow> py_error + digraph" where
  "pole_terminal_inner dist_matrix p [] DG = Inr DG"
| "pole_terminal_inner dist_matrix p (h # hs) DG =
     (case dist_at dist_matrix p h of
        Inl e \<Rightarrow> Inl e
      | Inr d \<Rightarrow>
          pole_terminal_inner dist_matrix p hs
            (if 0.1 < d \<and> d \<le> MAX_POLE_TO_TERMINAL
             then add_edge DG p h \<lparr>weight = d, length_m = d, voltage = ''low''\<rparr>
             else DG))"

fun pole_terminal_edges ::
  "real list list \<Rightarrow> node list \<Rightarrow> node list \<Rightarrow> digraph \<Rightarrow> py_error + digraph" where
  "pole_terminal_edges dist_matrix [] terminal_indices DG = Inr DG"
| "pole_terminal_edges dist_matrix (p # ps) terminal_indices DG =
     (case pole_terminal_inner dist_matrix p terminal_indices DG of
        Inl e \<Rightarrow> Inl e
      | Inr DG' \<Rightarrow> pole_terminal_edges dist_matrix ps terminal_indices DG')"

fun pole_pole_inner ::
  "real list list \<Rightarrow> node \<Rightarrow> node list \<Rightarrow> digraph \<Rightarrow> py_error + digraph" where
  "pole_pole_inner dist_matrix p1 [] DG = Inr DG"
| "pole_pole_inner dist_matrix p1 (p2 # ps) DG =
     (case dist_at dist_matrix p1 p2 of
        Inl e \<Rightarrow> Inl e
      | Inr d \<Rightarrow>
          (let w = d + 100 in
           pole_pole_inner dist_matrix p1 ps
             (if 0.1 < d \<and> d \<le> MAX_POLE_TO_POLE
              then add_edge
                     (add_edge DG p1 p2 \<lparr>weight = w, length_m = d, voltage = ''high''\<rparr>)
                     p2 p1 \<lparr>weight = w, length_m = d, voltage = ''high''\<rparr>
              else DG)))"

fun pole_pole_edges ::
  "real list list \<Rightarrow> node list \<Rightarrow> digraph \<Rightarrow> py_error + digraph" where
  "pole_pole_edges dist_matrix [] DG = Inr DG"
| "pole_pole_edges dist_matrix (p1 # ps) DG =
     (case pole_pole_inner dist_matrix p1 ps DG of
        Inl e \<Rightarrow> Inl e
      | Inr DG' \<Rightarrow> pole_pole_edges dist_matrix ps DG')"

fun source_pole_edges ::
  "real list list \<Rightarrow> node \<Rightarrow> node list \<Rightarrow> digraph \<Rightarrow> py_error + digraph" where
  "source_pole_edges dist_matrix source_idx [] DG = Inr DG"
| "source_pole_edges dist_matrix source_idx (p # ps) DG =
     (case dist_at dist_matrix source_idx p of
        Inl e \<Rightarrow> Inl e
      | Inr d \<Rightarrow>
          source_pole_edges dist_matrix source_idx ps
            (if 0.1 < d \<and> d \<le> MAX_POLE_TO_POLE
             then add_edge DG source_idx p \<lparr>weight = d, length_m = d, voltage = ''high''\<rparr>
             else DG))"

definition build_directed_graph_for_arborescence ::
  "node \<Rightarrow> node list \<Rightarrow> node list \<Rightarrow> real list list \<Rightarrow> (string \<rightharpoonup> real) \<Rightarrow>
     py_error + digraph" where
  "build_directed_graph_for_arborescence source_idx terminal_indices pole_indices dist_matrix costs =
     (case pole_terminal_edges dist_matrix pole_indices terminal_indices empty_digraph of
        Inl e \<Rightarrow> Inl e
      | Inr DG1 \<Rightarrow>
          (case pole_pole_edges dist_matrix pole_indices DG1 of
             Inl e \<Rightarrow> Inl e
           | Inr DG2 \<Rightarrow> source_pole_edges dist_matrix source_idx pole_indices DG2))"

text \<open>A distance matrix for source 0, terminal 1 and poles 2 and 3.\<close>

definition ex_dist :: "real list list" where
  "ex_dist = [[0, 80, 50, 110],
              [80, 0, 30, 35],
              [50, 30, 0, 60],
              [110, 35, 60, 0]]"

subsection \<open>Invariants of the three loops\<close>

lemma set_update_subset: "set (AList.update k v al) \<subseteq> insert (k, v) (set al)"
  by (induction al) auto

lemma edges_add_edge:
  "e \<in> set (edges (add_edge G u v a)) \<Longrightarrow> e = ((u, v), a) \<or> e \<in> set (edges G)"
  using set_update_subset[of "(u, v)" a "edges G"] by (auto simp: add_edge_def)

lemma pole_terminal_inner_inv:
  assumes "pole_terminal_inner m p hs DG = Inr DG'"
    and "\<forall>e \<in> set (edges DG). Q e"
    and "\<And>h d. h \<in> set hs \<Longrightarrow> dist_at m p h = Inr d \<Longrightarrow> 0.1 < d \<Longrightarrow> d \<le> MAX_POLE_TO_TERMINAL
           \<Longrightarrow> Q ((p, h), \<lparr>weight = d, length_m = d, voltage = ''low''\<rparr>)"
  shows "\<forall>e \<in> set (edges DG'). Q e"
  using assms
proof (induction hs arbitrary: DG)
  case Nil
  then show ?case by simp
next
  case (Cons h hs)
  from Cons.prems(1) obtain d where d: "dist_at m p h = Inr d"
    by (auto split: sum.splits)
  let ?DG = "if 0.1 < d \<and> d \<le> MAX_POLE_TO_TERMINAL
             then add_edge DG p h \<lparr>weight = d, length_m = d, voltage = ''low''\<rparr> else DG"
  from Cons.prems(1) d have run: "pole_terminal_inner m p hs ?DG = Inr DG'" by simp
  have "\<forall>e \<in> set (edges ?DG). Q e"
    using Cons.prems(2) Cons.prems(3)[of h d] d by (auto dest!: edges_add_edge)
  from Cons.IH[OF run this] Cons.prems(3) show ?case by simp
qed

lemma pole_terminal_edges_inv:
  assumes "pole_terminal_edges m ps T DG = Inr DG'"
    and "\<forall>e \<in> set (edges DG). Q e"
    and "\<And>p h d. p \<in> set ps \<Longrightarrow> h \<in> set T \<Longrightarrow> dist_at m p h = Inr d \<Longrightarrow> 0.1 < d \<Longrightarrow>
           d \<le> MAX_POLE_TO_TERMINAL \<Longrightarrow> Q ((p, h), \<lparr>weight = d, length_m = d, voltage = ''low''\<rparr>)"
  shows "\<forall>e \<in> set (edges DG'). Q e"
  using assms
proof (induction ps arbitrary: DG)
  case Nil
  then show ?case by simp
next
  case (Cons p ps)
  from Cons.prems(1) obtain DG1 where
    1: "pole_terminal_inner m p T DG = Inr DG1" and 2: "pole_terminal_edges m ps T DG1 = Inr DG'"
    by (auto split: sum.splits)
  have "\<forall>e \<in> set (edges DG1). Q e"
    using 1 Cons.prems(2) by (rule pole_terminal_inner_inv) (simp add: Cons.prems(3))
  from Cons.IH[OF 2 this] Cons.prems(3) show ?case by simp
qed

lemma pole_pole_inner_inv:
  assumes "pole_pole_inner m p1 ps DG = Inr DG'"
    and "\<forall>e \<in> set (edges DG). Q e"
    and "\<And>p2 d. p2 \<in> set ps \<Longrightarrow> dist_at m p1 p2 = Inr d \<Longrightarrow> 0.1 < d \<Longrightarrow> d \<le> MAX_POLE_TO_POLE
           \<Longrightarrow> Q ((p1, p2), \<lparr>weight = d + 100, length_m = d, voltage = ''high''\<rparr>) \<and>
               Q ((p2, p1), \<lparr>weight = d + 100, length_m = d, voltage = ''high''\<rparr>)"
  shows "\<forall>e \<in> set (edges DG'). Q e"
  using assms
proof (induction ps arbitrary: DG)
  case Nil
  then show ?case by simp
next
  case (Cons p2 ps)
  from Cons.prems(1) obtain d where d: "dist_at m p1 p2 = Inr d"
    by (auto split: sum.splits)
  let ?a = "\<lparr>weight = d + 100, length_m = d, voltage = ''high''\<rparr>"
  let ?DG = "if 0.1 < d \<and> d \<le> MAX_POLE_TO_POLE
             then add_edge (add_edge DG p1 p2 ?a) p2 p1 ?a else DG"
  from Cons.prems(1) d have run: "pole_pole_inner m p1 ps ?DG = Inr DG'" by (simp add: Let_def)
  have "\<forall>e \<in> set (edges ?DG). Q e"
    using Cons.prems(2) Cons.prems(3)[of p2 d] d by (auto dest!: edges_add_edge)
  from Cons.IH[OF run this] Cons.prems(3) show ?case by simp
qed

lemma pole_pole_edges_inv:
  assumes "pole_pole_edges m ps DG = Inr DG'"
    and "\<forall>e \<in> set (edges DG). Q e"
    and "\<And>p1 p2 d. p1 \<in> set ps \<Longrightarrow> p2 \<in> set ps \<Longrightarrow> dist_at m p1 p2 = Inr d \<Longrightarrow> 0.1 < d \<Longrightarrow>
           d \<le> MAX_POLE_TO_POLE
           \<Longrightarrow> Q ((p1, p2), \<lparr>weight = d + 100, length_m = d, voltage = ''high''\<rparr>) \<and>
               Q ((p2, p1), \<lparr>weight = d + 100, length_m = d, voltage = ''high''\<rparr>)"
  shows "\<forall>e \<in> set (edges DG'). Q e"
  using assms
proof (induction ps arbitrary: DG)
  case Nil
  then show ?case by simp
next
  case (Cons p1 ps)
  from Cons.prems(1) obtain DG1 where
    1: "pole_pole_inner m p1 ps DG = Inr DG1" and 2: "pole_pole_edges m ps DG1 = Inr DG'"
    by (auto split: sum.splits)
  have "\<forall>e \<in> set (edges DG1). Q e"
    using 1 Cons.prems(2) by (rule pole_pole_inner_inv) (simp add: Cons.prems(3))
  from Cons.IH[OF 2 this] Cons.prems(3) show ?case by simp
qed

lemma source_pole_edges_inv:
  assumes "source_pole_edges m s ps DG = Inr DG'"
    and "\<forall>e \<in> set (edges DG). Q e"
    and "\<And>p d. p \<in> set ps \<Longrightarrow> dist_at m s p = Inr d \<Longrightarrow> 0.1 < d \<Longrightarrow> d \<le> MAX_POLE_TO_POLE
           \<Longrightarrow> Q ((s, p), \<lparr>weight = d, length_m = d, voltage = ''high''\<rparr>)"
  shows "\<forall>e \<in> set (edges DG'). Q e"
  using assms
proof (induction ps arbitrary: DG)
  case Nil
  then show ?case by simp
next
  case (Cons p ps)
  from Cons.prems(1) obtain d where d: "dist_at m s p = Inr d"
    by (auto split: sum.splits)
  let ?DG = "if 0.1 < d \<and> d \<le> MAX_POLE_TO_POLE
             then add_edge DG s p \<lparr>weight = d, length_m = d, voltage = ''high''\<rparr> else DG"
  from Cons.prems(1) d have run: "source_pole_edges m s ps ?DG = Inr DG'" by simp
  have "\<forall>e \<in> set (edges ?DG). Q e"
    using Cons.prems(2) Cons.prems(3)[of p d] d by (auto dest!: edges_add_edge)
  from Cons.IH[OF run this] Cons.prems(3) show ?case by simp
qed

definition edge_typed ::
  "node \<Rightarrow> node list \<Rightarrow> node list \<Rightarrow> real list list \<Rightarrow> (node \<times> node) \<times> edge_attr \<Rightarrow> bool" where
  "edge_typed s T P m e =
     (case e of ((u, v), a) \<Rightarrow>
        (u \<in> set P \<and> v \<in> set T \<and> voltage a = ''low'' \<and> weight a = length_m a \<and>
         0.1 < length_m a \<and> length_m a \<le> 100 \<and> dist_at m u v = Inr (length_m a)) \<or>
        (u \<in> set P \<and> v \<in> set P \<and> voltage a = ''high'' \<and> weight a = length_m a + 100 \<and>
         0.1 < length_m a \<and> length_m a \<le> 150 \<and>
         (dist_at m u v = Inr (length_m a) \<or> dist_at m v u = Inr (length_m a))) \<or>
        (u = s \<and> v \<in> set P \<and> voltage a = ''high'' \<and> weight a = length_m a \<and>
         0.1 < length_m a \<and> length_m a \<le> 150 \<and> dist_at m u v = Inr (length_m a)))"

lemma build_edges_typed:
  assumes "build_directed_graph_for_arborescence s T P m costs = Inr DG"
  shows "\<forall>e \<in> set (edges DG). edge_typed s T P m e"
proof -
  from assms obtain DG1 DG2 where
    1: "pole_terminal_edges m P T empty_digraph = Inr DG1" and
    2: "pole_pole_edges m P DG1 = Inr DG2" and
    3: "source_pole_edges m s P DG2 = Inr DG"
    by (auto simp: build_directed_graph_for_arborescence_def split: sum.splits)
  have "\<forall>e \<in> set (edges DG1). edge_typed s T P m e"
    using 1 by (rule pole_terminal_edges_inv)
      (simp_all add: empty_digraph_def edge_typed_def MAX_POLE_TO_TERMINAL_def)
  with 2 have "\<forall>e \<in> set (edges DG2). edge_typed s T P m e"
    by (rule pole_pole_edges_inv) (simp add: edge_typed_def MAX_POLE_TO_POLE_def)
  with 3 show ?thesis
    by (rule source_pole_edges_inv) (simp add: edge_typed_def MAX_POLE_TO_POLE_def)
qed


















section \<open>Edge bounds and edge weights of the candidate graph\<close>

definition ex_candidate_graph :: digraph where
  "ex_candidate_graph =
     \<lparr>nodes = [2, 1, 3, 0],
      edges = [((2, 1), \<lparr>weight = 30, length_m = 30, voltage = ''low''\<rparr>),
               ((3, 1), \<lparr>weight = 35, length_m = 35, voltage = ''low''\<rparr>),
               ((2, 3), \<lparr>weight = 160, length_m = 60, voltage = ''high''\<rparr>),
               ((3, 2), \<lparr>weight = 160, length_m = 60, voltage = ''high''\<rparr>),
               ((0, 2), \<lparr>weight = 50, length_m = 50, voltage = ''high''\<rparr>),
               ((0, 3), \<lparr>weight = 110, length_m = 110, voltage = ''high''\<rparr>)]\<rparr>"

lemma build_ex_dist:
  "build_directed_graph_for_arborescence 0 [1] [2, 3] ex_dist Map.empty = Inr ex_candidate_graph"
  by code_simp

text \<open>
  C2. For every source index, terminal index list, pole index list and distance matrix,
  every edge of the graph the builder returns is of one of the three kinds and satisfies
  the bound of its kind: a pole-to-terminal edge has voltage \<open>low\<close> and a length in
  (0.1, 100]; a pole-to-pole edge and a source-to-pole edge have voltage \<open>high\<close> and a
  length in (0.1, 150]. When the index lists are disjoint and the source is no pole, the
  end points alone decide the kind. A pair whose distance is exactly 0 has no edge.
\<close>

theorem build_graph_edge_bounds:
  assumes "build_directed_graph_for_arborescence source_idx terminal_indices pole_indices
             dist_matrix costs = Inr DG"
  shows "(\<forall>e \<in> set (edges DG). case e of ((u, v), a) \<Rightarrow>
            (u \<in> set pole_indices \<and> v \<in> set terminal_indices \<and> voltage a = ''low'' \<and>
             0.1 < length_m a \<and> length_m a \<le> 100) \<or>
            (u \<in> set pole_indices \<and> v \<in> set pole_indices \<and> voltage a = ''high'' \<and>
             0.1 < length_m a \<and> length_m a \<le> 150) \<or>
            (u = source_idx \<and> v \<in> set pole_indices \<and> voltage a = ''high'' \<and>
             0.1 < length_m a \<and> length_m a \<le> 150)) \<and>
         (set pole_indices \<inter> set terminal_indices = {} \<and> source_idx \<notin> set pole_indices \<longrightarrow>
          (\<forall>e \<in> set (edges DG). case e of ((u, v), a) \<Rightarrow>
             (u \<in> set pole_indices \<and> v \<in> set terminal_indices \<longrightarrow>
                voltage a = ''low'' \<and> 0.1 < length_m a \<and> length_m a \<le> 100) \<and>
             (v \<in> set pole_indices \<longrightarrow>
                voltage a = ''high'' \<and> 0.1 < length_m a \<and> length_m a \<le> 150))) \<and>
         (\<forall>u v. dist_at dist_matrix u v = Inr 0 \<and> dist_at dist_matrix v u = Inr 0 \<longrightarrow>
            (u, v) \<notin> edge_rel DG)"
proof (intro conjI)
  note typed = build_edges_typed[OF assms]
  show "\<forall>e \<in> set (edges DG). case e of ((u, v), a) \<Rightarrow>
            (u \<in> set pole_indices \<and> v \<in> set terminal_indices \<and> voltage a = ''low'' \<and>
             0.1 < length_m a \<and> length_m a \<le> 100) \<or>
            (u \<in> set pole_indices \<and> v \<in> set pole_indices \<and> voltage a = ''high'' \<and>
             0.1 < length_m a \<and> length_m a \<le> 150) \<or>
            (u = source_idx \<and> v \<in> set pole_indices \<and> voltage a = ''high'' \<and>
             0.1 < length_m a \<and> length_m a \<le> 150)"
    using typed by (fastforce simp: edge_typed_def)
  show "set pole_indices \<inter> set terminal_indices = {} \<and> source_idx \<notin> set pole_indices \<longrightarrow>
         (\<forall>e \<in> set (edges DG). case e of ((u, v), a) \<Rightarrow>
            (u \<in> set pole_indices \<and> v \<in> set terminal_indices \<longrightarrow>
               voltage a = ''low'' \<and> 0.1 < length_m a \<and> length_m a \<le> 100) \<and>
            (v \<in> set pole_indices \<longrightarrow>
               voltage a = ''high'' \<and> 0.1 < length_m a \<and> length_m a \<le> 150))"
    using typed by (fastforce simp: edge_typed_def)
  show "\<forall>u v. dist_at dist_matrix u v = Inr 0 \<and> dist_at dist_matrix v u = Inr 0 \<longrightarrow>
           (u, v) \<notin> edge_rel DG"
  proof (intro allI impI notI)
    fix u v
    assume z: "dist_at dist_matrix u v = Inr 0 \<and> dist_at dist_matrix v u = Inr 0"
      and "(u, v) \<in> edge_rel DG"
    then obtain a where "((u, v), a) \<in> set (edges DG)" by (auto simp: edge_rel_def)
    with typed have "edge_typed source_idx terminal_indices pole_indices dist_matrix ((u, v), a)"
      by blast
    with z show False by (auto simp: edge_typed_def)
  qed
qed

theorem build_graph_edge_bounds_witness:
  "build_directed_graph_for_arborescence 0 [1] [2, 3] ex_dist Map.empty = Inr ex_candidate_graph \<and>
   ((3, 1), \<lparr>weight = 35, length_m = 35, voltage = ''low''\<rparr>) \<in> set (edges ex_candidate_graph) \<and>
   dist_at ex_dist 1 1 = Inr 0 \<and> (1, 1) \<notin> edge_rel ex_candidate_graph"
proof -
  have z: "dist_at ex_dist 1 1 = Inr 0" by (simp add: dist_at_def ex_dist_def)
  have m: "((3, 1), \<lparr>weight = 35, length_m = 35, voltage = ''low''\<rparr>) \<in> set (edges ex_candidate_graph)"
    by (simp add: ex_candidate_graph_def)
  from build_graph_edge_bounds[OF build_ex_dist] z
  have "(1, 1) \<notin> edge_rel ex_candidate_graph" by blast
  with build_ex_dist z m show ?thesis by blast
qed



section \<open>The solver and \<^verbatim>\<open>compute_mst\<close>\<close>

text \<open>
  \<^verbatim>\<open>nx.minimum_spanning_arborescence(DG, attr="weight", preserve_attrs=True, default=1e18)\<close>
  is a function of the networkx library, not of the repository. It is modelled after its
  documented contract: the result is a spanning arborescence of the graph (every node of
  the graph, some of its edges, with their attributes) of minimum total weight;
  \<^verbatim>\<open>NetworkXException\<close> is raised when the graph has no spanning arborescence; on the graph
  with no node the library's own test of the result raises \<^verbatim>\<open>NetworkXPointlessConcept\<close>.
  The model searches the sub-lists of the edge list. Which one of several arborescences
  of the same minimum weight the library returns is not specified, and no theorem below
  depends on it. Every edge of the program's graph carries a weight, so the default
  weight is never read.
\<close>

definition spanning_arborescences :: "digraph \<Rightarrow> digraph list" where
  "spanning_arborescences G =
     filter is_arborescence (map (\<lambda>es. \<lparr>nodes = nodes G, edges = es\<rparr>) (subseqs (edges G)))"

definition total_weight :: "digraph \<Rightarrow> real" where
  "total_weight T = sum_list (map (\<lambda>e. weight (snd e)) (edges T))"

definition minimum_spanning_arborescence :: "digraph \<Rightarrow> py_error + digraph" where
  "minimum_spanning_arborescence G =
     (if nodes G = [] then Inl NetworkXPointlessConcept
      else case spanning_arborescences G of
             [] \<Rightarrow> Inl NetworkXException
           | T # Ts \<Rightarrow> Inr (arg_min_list total_weight (T # Ts)))"

subsection \<open>The result of \<^verbatim>\<open>compute_mst\<close>\<close>

text \<open>
  Of the dictionaries the function returns, the model keeps the indices of the end points
  of an edge, its rounded length and its voltage; the index and the type of a node; and
  all totals. Coordinates and display names are look-ups that no total depends on.
\<close>

record edge_out =
  start_idx :: node
  end_idx :: node
  lengthMeters :: real
  voltage_out :: string

record node_out =
  node_index :: node
  node_type :: string

record mst_output =
  out_edges :: "edge_out list"
  out_nodes :: "node_out list"
  totalLowVoltageMeters :: real
  totalHighVoltageMeters :: real
  numPolesUsed :: nat
  poleCostEstimate :: real
  lowWireCostEstimate :: real
  highWireCostEstimate :: real
  totalWireCostEstimate :: real
  totalCostEstimate :: real

text \<open>\<^verbatim>\<open>round(x, 2)\<close> on the reals: the nearest multiple of 0.01, a tie going to the
  even one.\<close>

definition py_round2 :: "real \<Rightarrow> real" where
  "py_round2 x =
     (let y = x * 100; f = \<lfloor>y\<rfloor>; r = y - of_int f
      in (if r < 1 / 2 then of_int f
          else if 1 / 2 < r then of_int f + 1
          else if even f then of_int f else of_int f + 1) / 100)"

text \<open>\<^verbatim>\<open>used_nodes = {u for u, v in mst.edges()} | {v for u, v in mst.edges()}\<close>\<close>

definition used_nodes :: "digraph \<Rightarrow> node set" where
  "used_nodes mst = (\<lambda>e. fst (fst e)) ` set (edges mst) \<union> (\<lambda>e. snd (fst e)) ` set (edges mst)"

text \<open>The body of the loop \<^verbatim>\<open>for u, v, data in mst.edges(data=True)\<close>, on the state made of
  the list \<^verbatim>\<open>edges\<close> and the two running totals.\<close>

definition collect_edge ::
  "(node \<times> node) \<times> edge_attr \<Rightarrow> edge_out list \<times> real \<times> real \<Rightarrow> edge_out list \<times> real \<times> real" where
  "collect_edge e s =
     (case (e, s) of (((u, v), data), (edges_acc, total_low_m, total_high_m)) \<Rightarrow>
        (let length_v = length_m data; volt = voltage data;
             edges_acc' = edges_acc @ [\<lparr>start_idx = u, end_idx = v,
                                       lengthMeters = py_round2 length_v, voltage_out = volt\<rparr>]
         in if volt = ''low'' then (edges_acc', total_low_m + length_v, total_high_m)
            else (edges_acc', total_low_m, total_high_m + length_v)))"

text \<open>\<^verbatim>\<open>float(costs.get(key, default))\<close>\<close>

definition cost_or :: "(string \<rightharpoonup> real) \<Rightarrow> string \<Rightarrow> real \<Rightarrow> real" where
  "cost_or costs k dflt = (case costs k of None \<Rightarrow> dflt | Some c \<Rightarrow> c)"

text \<open>Everything \<^verbatim>\<open>compute_mst\<close> does after pruning.\<close>

definition aggregate_costs ::
  "digraph \<Rightarrow> node \<Rightarrow> node list \<Rightarrow> nat \<Rightarrow> nat \<Rightarrow> (string \<rightharpoonup> real) \<Rightarrow> bool \<Rightarrow> mst_output" where
  "aggregate_costs mst source_idx pole_indices pole_start_idx n_total costs debug =
     (let used = used_nodes mst;
          used_pole_indices = filter (\<lambda>i. i \<in> used) pole_indices;
          (edges_acc, total_low_m, total_high_m) = fold collect_edge (edges mst) ([], 0, 0);
          pole_cost = cost_or costs ''poleCost'' 1500;
          low_cost_m = cost_or costs ''lowVoltageCostPerMeter'' 8;
          high_cost_m = cost_or costs ''highVoltageCostPerMeter'' 25;
          num_poles = length used_pole_indices;
          pole_cost_est = real num_poles * pole_cost;
          low_wire_est = total_low_m * low_cost_m;
          high_wire_est = total_high_m * high_cost_m;
          total_wire_est = low_wire_est + high_wire_est;
          total_cost_est = pole_cost_est + total_wire_est;
          return_nodes =
            (if debug
             then map (\<lambda>i. \<lparr>node_index = i, node_type = ''pole''\<rparr>) [0..<n_total]
             else map (\<lambda>i. \<lparr>node_index = i,
                              node_type = (if i = source_idx then ''source''
                                           else if i < pole_start_idx then ''terminal''
                                           else ''pole'')\<rparr>)
                      (sorted_list_of_set used))
      in \<lparr>out_edges = edges_acc,
          out_nodes = return_nodes,
          totalLowVoltageMeters = py_round2 total_low_m,
          totalHighVoltageMeters = py_round2 total_high_m,
          numPolesUsed = num_poles,
          poleCostEstimate = py_round2 pole_cost_est,
          lowWireCostEstimate = py_round2 low_wire_est,
          highWireCostEstimate = py_round2 high_wire_est,
          totalWireCostEstimate = py_round2 total_wire_est,
          totalCostEstimate = py_round2 total_cost_est\<rparr>)"

text \<open>
  \<^verbatim>\<open>compute_mst\<close> from the point where the coordinates of the input points and of the
  candidate poles are known: \<open>pole_start_idx\<close> is the number of input points, \<open>n_total\<close> the
  number of all points, and the distance matrix holds the great-circle distances.
\<close>

definition compute_mst_core ::
  "node \<Rightarrow> node list \<Rightarrow> node list \<Rightarrow> nat \<Rightarrow> nat \<Rightarrow> real list list \<Rightarrow> (string \<rightharpoonup> real) \<Rightarrow> bool \<Rightarrow>
     py_error + mst_output" where
  "compute_mst_core source_idx terminal_indices pole_indices pole_start_idx n_total dist_matrix costs debug =
     (case build_directed_graph_for_arborescence source_idx terminal_indices pole_indices
             dist_matrix costs of
        Inl e \<Rightarrow> Inl e
      | Inr DG \<Rightarrow>
          (case minimum_spanning_arborescence DG of
             Inl e \<Rightarrow> Inl e
           | Inr arbo \<Rightarrow>
               (case prune_dead_end_pole_branches arbo pole_indices terminal_indices of
                  Inl e \<Rightarrow> Inl e
                | Inr mst \<Rightarrow>
                    Inr (aggregate_costs mst source_idx pole_indices pole_start_idx n_total
                           costs debug))))"



section \<open>Cost aggregation\<close>












section \<open>Nodes out of reach of the source\<close>

text \<open>Invariants of the whole graph that every \<^verbatim>\<open>add_edge\<close> keeps are kept by the builder.\<close>

lemma pole_terminal_inner_pres:
  assumes "\<And>G u v a. I G \<Longrightarrow> I (add_edge G u v a)"
  shows "pole_terminal_inner m p hs DG = Inr DG' \<Longrightarrow> I DG \<Longrightarrow> I DG'"
  by (induction hs arbitrary: DG) (auto split: sum.splits if_splits simp: assms)

lemma pole_terminal_edges_pres:
  assumes "\<And>G u v a. I G \<Longrightarrow> I (add_edge G u v a)"
  shows "pole_terminal_edges m ps T DG = Inr DG' \<Longrightarrow> I DG \<Longrightarrow> I DG'"
proof (induction ps arbitrary: DG)
  case Nil
  then show ?case by simp
next
  case (Cons p ps)
  from Cons.prems(1) obtain DG1 where
    1: "pole_terminal_inner m p T DG = Inr DG1" and 2: "pole_terminal_edges m ps T DG1 = Inr DG'"
    by (auto split: sum.splits)
  from pole_terminal_inner_pres[where I = I, OF assms 1 Cons.prems(2)] have "I DG1" .
  from Cons.IH[OF 2 this] show ?case .
qed

lemma pole_pole_inner_pres:
  assumes "\<And>G u v a. I G \<Longrightarrow> I (add_edge G u v a)"
  shows "pole_pole_inner m p ps DG = Inr DG' \<Longrightarrow> I DG \<Longrightarrow> I DG'"
  by (induction ps arbitrary: DG) (auto split: sum.splits if_splits simp: assms Let_def)

lemma pole_pole_edges_pres:
  assumes "\<And>G u v a. I G \<Longrightarrow> I (add_edge G u v a)"
  shows "pole_pole_edges m ps DG = Inr DG' \<Longrightarrow> I DG \<Longrightarrow> I DG'"
proof (induction ps arbitrary: DG)
  case Nil
  then show ?case by simp
next
  case (Cons p ps)
  from Cons.prems(1) obtain DG1 where
    1: "pole_pole_inner m p ps DG = Inr DG1" and 2: "pole_pole_edges m ps DG1 = Inr DG'"
    by (auto split: sum.splits)
  from pole_pole_inner_pres[where I = I, OF assms 1 Cons.prems(2)] have "I DG1" .
  from Cons.IH[OF 2 this] show ?case .
qed

lemma source_pole_edges_pres:
  assumes "\<And>G u v a. I G \<Longrightarrow> I (add_edge G u v a)"
  shows "source_pole_edges m s ps DG = Inr DG' \<Longrightarrow> I DG \<Longrightarrow> I DG'"
  by (induction ps arbitrary: DG) (auto split: sum.splits if_splits simp: assms)

lemma build_pres:
  assumes "\<And>G u v a. I G \<Longrightarrow> I (add_edge G u v a)" "I empty_digraph"
    and "build_directed_graph_for_arborescence s T P m costs = Inr DG"
  shows "I DG"
proof -
  from assms(3) obtain DG1 DG2 where
    1: "pole_terminal_edges m P T empty_digraph = Inr DG1" and
    2: "pole_pole_edges m P DG1 = Inr DG2" and
    3: "source_pole_edges m s P DG2 = Inr DG"
    by (auto simp: build_directed_graph_for_arborescence_def split: sum.splits)
  from pole_terminal_edges_pres[where I = I, OF assms(1) 1 assms(2)] have "I DG1" .
  from pole_pole_edges_pres[where I = I, OF assms(1) 2 this] have "I DG2" .
  from source_pole_edges_pres[where I = I, OF assms(1) 3 this] show ?thesis .
qed

definition nodes_are_endpoints :: "digraph \<Rightarrow> bool" where
  "nodes_are_endpoints G \<longleftrightarrow>
     distinct (nodes G) \<and>
     set (nodes G) = (\<lambda>e. fst (fst e)) ` set (edges G) \<union> (\<lambda>e. snd (fst e)) ` set (edges G)"

lemma nodes_are_endpoints_add_edge:
  assumes "nodes_are_endpoints G"
  shows "nodes_are_endpoints (add_edge G u v a)"
proof -
  have k: "fst ` set (AList.update (u, v) a (edges G)) = insert (u, v) (fst ` set (edges G))"
    by (simp add: dom_update)
  have f: "(\<lambda>e. fst (fst e)) ` set es = fst ` fst ` set es"
    and s: "(\<lambda>e. snd (fst e)) ` set es = snd ` fst ` set es" for es :: "((node \<times> node) \<times> edge_attr) list"
    by (simp_all add: image_image)
  have n: "set (nodes (add_edge G u v a)) = insert u (insert v (set (nodes G)))"
    and d: "distinct (nodes (add_edge G u v a))"
    using assms by (auto simp: add_edge_def add_node_def nodes_are_endpoints_def)
  have e: "edges (add_edge G u v a) = AList.update (u, v) a (edges G)"
    by (simp add: add_edge_def)
  show ?thesis
    unfolding nodes_are_endpoints_def n e f s k using assms d
    by (auto simp: nodes_are_endpoints_def f s e)
qed

lemma build_nodes_are_endpoints:
  assumes "build_directed_graph_for_arborescence s T P m costs = Inr DG"
  shows "nodes_are_endpoints DG"
proof (rule build_pres[where I = nodes_are_endpoints, OF _ _ assms])
  show "nodes_are_endpoints empty_digraph"
    by (simp add: nodes_are_endpoints_def empty_digraph_def)
qed (rule nodes_are_endpoints_add_edge)

lemma build_no_edges_no_nodes:
  assumes "build_directed_graph_for_arborescence s T P m costs = Inr DG" "edges DG = []"
  shows "nodes DG = []"
  using build_nodes_are_endpoints[OF assms(1)] assms(2) by (simp add: nodes_are_endpoints_def)

lemma compute_mst_core_no_edges:
  assumes "build_directed_graph_for_arborescence s T P m costs = Inr DG" "edges DG = []"
  shows "compute_mst_core s T P k n m costs debug = Inl NetworkXPointlessConcept"
  using assms build_no_edges_no_nodes[OF assms]
  by (simp add: compute_mst_core_def minimum_spanning_arborescence_def)

lemma subseqs_subset: "xs \<in> set (subseqs ys) \<Longrightarrow> set xs \<subseteq> set ys"
  using subseqs_powset[of ys] by blast

lemma msa_result:
  assumes "minimum_spanning_arborescence G = Inr T"
  shows "is_arborescence T \<and> nodes T = nodes G \<and> set (edges T) \<subseteq> set (edges G)"
proof -
  from assms have ne: "spanning_arborescences G \<noteq> []"
    and T: "T = arg_min_list total_weight (spanning_arborescences G)"
    by (auto simp: minimum_spanning_arborescence_def split: if_splits list.splits)
  from arg_min_list_in[OF ne] T have "T \<in> set (spanning_arborescences G)" by simp
  then obtain es where es: "es \<in> set (subseqs (edges G))"
    "T = \<lparr>nodes = nodes G, edges = es\<rparr>" "is_arborescence T"
    by (auto simp: spanning_arborescences_def)
  from subseqs_subset[OF es(1)] es(2,3) show ?thesis by simp
qed


text \<open>What the pruner receives in \<^verbatim>\<open>compute_mst\<close>: an arborescence in which every node with
  an incoming edge is a pole or a terminal.\<close>

lemma solver_output_covered:
  assumes "build_directed_graph_for_arborescence s T P m costs = Inr DG"
    and "minimum_spanning_arborescence DG = Inr arbo"
  shows "is_arborescence arbo \<and> (\<forall>e \<in> set (edges arbo). snd (fst e) \<in> set P \<union> set T)"
proof -
  from msa_result[OF assms(2)] have a: "is_arborescence arbo"
    and sub: "set (edges arbo) \<subseteq> set (edges DG)" by blast+
  have "snd (fst e) \<in> set P \<union> set T" if "e \<in> set (edges arbo)" for e
  proof -
    from that sub build_edges_typed[OF assms(1)] have "edge_typed s T P m e" by blast
    then show ?thesis by (auto simp: edge_typed_def split: prod.splits)
  qed
  with a show ?thesis by blast
qed


















section \<open>Candidate generation\<close>

text \<open>A point is a pair of a latitude and a longitude, in degrees.\<close>

type_synonym point = "real \<times> real"

text \<open>The module constants. \<^verbatim>\<open>MIN_DIST_TO_TERMINAL = 8.0,\<close> ends in a comma and is
  therefore a tuple of one number, which the comparison with an array broadcasts.\<close>

definition MIN_DIST_TO_TERMINAL :: "real list" where
  "MIN_DIST_TO_TERMINAL = [8]"

definition MAX_CIRCUMRADIUS :: "real option" where
  "MAX_CIRCUMRADIUS = Some 300"

definition MIN_CANDIDATE_SEPARATION :: real where
  "MIN_CANDIDATE_SEPARATION = 10"

text \<open>
  \<^verbatim>\<open>haversine_vec\<close> (one entry of its result is \<open>haversine\<close>) and \<^verbatim>\<open>haversine_meters\<close>,
  over the reals. \<^verbatim>\<open>arctan2\<close> is the two-argument arc tangent. For latitudes between -90 and
  90 the quantity \<open>a\<close> lies between 0 and 1; outside of that range the program takes the
  square root of a negative number, which is outside the model.
\<close>

definition radians :: "real \<Rightarrow> real" where
  "radians x = x * pi / 180"

definition arctan2 :: "real \<Rightarrow> real \<Rightarrow> real" where
  "arctan2 y x =
     (if 0 < x then arctan (y / x)
      else if x < 0 \<and> 0 \<le> y then arctan (y / x) + pi
      else if x < 0 \<and> y < 0 then arctan (y / x) - pi
      else if 0 < y then pi / 2
      else if y < 0 then - pi / 2
      else 0)"

definition haversine :: "point \<Rightarrow> point \<Rightarrow> real" where
  "haversine p q =
     (let lat1 = radians (fst p); lon1 = radians (snd p);
          lat2 = radians (fst q); lon2 = radians (snd q);
          dlat = lat2 - lat1; dlon = lon2 - lon1;
          a = (sin (dlat / 2))\<^sup>2 + cos lat1 * cos lat2 * (sin (dlon / 2))\<^sup>2;
          c = 2 * arctan2 (sqrt a) (sqrt (1 - a))
      in 6371000 * c)"

definition haversine_vec :: "point list \<Rightarrow> point list \<Rightarrow> real list list" where
  "haversine_vec A B = map (\<lambda>a. map (\<lambda>b. haversine a b) B) A"

definition haversine_meters :: "real \<Rightarrow> real \<Rightarrow> real \<Rightarrow> real \<Rightarrow> real" where
  "haversine_meters lat1 lng1 lat2 lng2 =
     (let R = 6371000;
          phi1 = radians lat1; phi2 = radians lat2;
          dphi = radians (lat2 - lat1); dlam = radians (lng2 - lng1);
          a = (sin (dphi / 2))\<^sup>2 + cos phi1 * cos phi2 * (sin (dlam / 2))\<^sup>2;
          c = 2 * arctan2 (sqrt a) (sqrt (1 - a))
      in R * c)"

lemma haversine_meters_eq: "haversine_meters lat1 lng1 lat2 lng2 = haversine (lat1, lng1) (lat2, lng2)"
  by (simp add: haversine_meters_def haversine_def radians_def Let_def diff_divide_distrib left_diff_distrib)

lemma haversine_sym: "haversine p q = haversine q p"
proof -
  have s: "(sin ((x - y) / 2))\<^sup>2 = (sin ((y - x) / 2))\<^sup>2" for x y :: real
  proof -
    have "(x - y) / 2 = - ((y - x) / 2)" by (simp add: field_simps)
    then show ?thesis by (simp only: sin_minus power2_minus)
  qed
  show ?thesis
    unfolding haversine_def Let_def
    by (simp only: s[of "radians (fst q)" "radians (fst p)"] s[of "radians (snd q)" "radians (snd p)"]
          mult.commute[of "cos (radians (fst p))" "cos (radians (fst q))"])
qed

lemma haversine_same: "haversine p p = 0"
  by (simp add: haversine_def arctan2_def)

text \<open>
  What the generators take from scipy and numpy without the repository fixing it:
  the vertices of the Voronoi diagram and the simplices of the Delaunay triangulation
  (both may raise \<^verbatim>\<open>QhullError\<close>), \<^verbatim>\<open>np.partition(row, 2)\<close>, which leaves the order of the
  two smallest entries open, and \<^verbatim>\<open>np.argsort\<close>, which leaves the order of equal keys
  open. They are parameters of the model: every theorem holds for every such library.
\<close>

record geometry_lib =
  lib_voronoi_vertices :: "point list \<Rightarrow> py_error + point list"
  lib_delaunay_simplices :: "point list \<Rightarrow> py_error + nat list list"
  lib_partition2 :: "real list \<Rightarrow> real list"
  lib_argsort :: "real list \<Rightarrow> nat list"

text \<open>\<^verbatim>\<open>np.round(x, decimals=6)\<close> and \<^verbatim>\<open>np.unique(rows, axis=0)\<close>, the sorted rows without
  repetition.\<close>

definition round_half_even :: "real \<Rightarrow> int" where
  "round_half_even y =
     (let f = \<lfloor>y\<rfloor>; r = y - of_int f
      in if r < 1 / 2 then f else if 1 / 2 < r then f + 1 else if even f then f else f + 1)"

definition np_round6 :: "real \<Rightarrow> real" where
  "np_round6 x = of_int (round_half_even (x * 1000000)) / 1000000"

definition np_round6_row :: "point \<Rightarrow> point" where
  "np_round6_row p = (np_round6 (fst p), np_round6 (snd p))"

definition np_unique_rows :: "point list \<Rightarrow> point list" where
  "np_unique_rows rows = remdups_adj (sort rows)"

text \<open>Indexing an array by an array of indices, \<^verbatim>\<open>rows[idx]\<close>.\<close>

definition index_rows :: "'a list \<Rightarrow> nat list \<Rightarrow> py_error + 'a list" where
  "index_rows rows idx =
     (if \<forall>i \<in> set idx. i < length rows then Inr (map (\<lambda>i. rows ! i) idx) else Inl IndexError)"

text \<open>The body of the loop \<^verbatim>\<open>for pt in candidates\<close>, on the state made of \<^verbatim>\<open>kept\<close> and
  \<^verbatim>\<open>kept_array\<close>; the two generators contain the same loop, after the same sort.\<close>

definition separation_step :: "point \<Rightarrow> point list \<times> point list \<Rightarrow> point list \<times> point list" where
  "separation_step pt s =
     (case s of (kept, kept_array) \<Rightarrow>
        if length kept_array = 0 then (kept @ [pt], [pt])
        else
          (let dists_to_kept = haversine_vec [pt] kept_array ! 0
           in if \<forall>d \<in> set dists_to_kept. MIN_CANDIDATE_SEPARATION \<le> d
              then (kept @ [pt], kept_array @ [pt])
              else (kept, kept_array)))"

definition separation_filter :: "geometry_lib \<Rightarrow> point list \<Rightarrow> py_error + point list" where
  "separation_filter lib candidates =
     (case index_rows candidates (lib_argsort lib (map fst candidates)) of
        Inl e \<Rightarrow> Inl e
      | Inr candidates' \<Rightarrow> Inr (fst (fold separation_step candidates' ([], []))))"

text \<open>\<^verbatim>\<open>generate_voronoi_candidates\<close>; \<open>voronoi_filtered\<close> is its \<^verbatim>\<open>verts[mask]\<close>.\<close>

definition voronoi_filtered :: "geometry_lib \<Rightarrow> point list \<Rightarrow> point list \<Rightarrow> point list" where
  "voronoi_filtered lib coords verts =
     (let dists = haversine_vec verts coords;
          nearest_dists = map (\<lambda>row. take 3 (lib_partition2 lib row)) dists;
          min_dists = map (\<lambda>row. row ! 0) nearest_dists;
          third_min_dists = map (\<lambda>row. row ! 2) nearest_dists;
          mask0 = map (\<lambda>d. MIN_DIST_TO_TERMINAL ! 0 \<le> d) min_dists;
          mask = (case MAX_CIRCUMRADIUS of
                    None \<Rightarrow> mask0
                  | Some R \<Rightarrow> map2 (\<and>) mask0 (map (\<lambda>d. d \<le> R) third_min_dists))
      in map fst (filter snd (zip verts mask)))"

definition generate_voronoi_candidates :: "geometry_lib \<Rightarrow> point list \<Rightarrow> py_error + point list" where
  "generate_voronoi_candidates lib coords =
     (if length coords < 3 then Inr []
      else case lib_voronoi_vertices lib coords of
        Inl e \<Rightarrow> Inl e
      | Inr verts \<Rightarrow>
          if length verts = 0 then Inr []
          else
            (let candidates = voronoi_filtered lib coords verts
             in if length candidates = 0 then Inr candidates
                else
                  (let candidates1 = np_unique_rows (map np_round6_row candidates)
                   in if length candidates1 \<le> 1 then Inr candidates1
                      else separation_filter lib candidates1)))"

text \<open>\<^verbatim>\<open>fermat_torricelli_point\<close> and \<^verbatim>\<open>generate_fermat_candidates\<close>.\<close>

definition norm2 :: "point \<Rightarrow> real" where
  "norm2 v = sqrt ((fst v)\<^sup>2 + (snd v)\<^sup>2)"

definition fermat_torricelli_point :: "point list \<Rightarrow> py_error + point" where
  "fermat_torricelli_point pts =
     (case pts of
        [A, B, C] \<Rightarrow>
          (let a = norm2 (fst B - fst C, snd B - snd C);
               b = norm2 (fst A - fst C, snd A - snd C);
               c = norm2 (fst A - fst B, snd A - snd B);
               cosA = (if b * c \<noteq> 0 then (b\<^sup>2 + c\<^sup>2 - a\<^sup>2) / (2 * b * c) else 1);
               cosB = (if a * c \<noteq> 0 then (a\<^sup>2 + c\<^sup>2 - b\<^sup>2) / (2 * a * c) else 1);
               cosC = (if a * b \<noteq> 0 then (a\<^sup>2 + b\<^sup>2 - c\<^sup>2) / (2 * a * b) else 1)
           in if cosA \<le> - 0.5 then Inr A
              else if cosB \<le> - 0.5 then Inr B
              else if cosC \<le> - 0.5 then Inr C
              else Inr ((fst A + fst B + fst C) / 3, (snd A + snd B + snd C) / 3))
      | _ \<Rightarrow> Inl ValueError)"

fun fermat_loop ::
  "point list \<Rightarrow> nat \<Rightarrow> nat list list \<Rightarrow> point list \<Rightarrow> py_error + point list" where
  "fermat_loop coords max_candidates [] candidates = Inr candidates"
| "fermat_loop coords max_candidates (simplex # simplices) candidates =
     (if max_candidates \<le> length candidates then Inr candidates
      else case index_rows coords simplex of
        Inl e \<Rightarrow> Inl e
      | Inr pts \<Rightarrow>
          (case fermat_torricelli_point pts of
             Inl e \<Rightarrow> Inl e
           | Inr st_pt \<Rightarrow> fermat_loop coords max_candidates simplices (candidates @ [st_pt])))"

definition generate_fermat_candidates ::
  "geometry_lib \<Rightarrow> point list \<Rightarrow> nat \<Rightarrow> py_error + point list" where
  "generate_fermat_candidates lib coords max_candidates =
     (if length coords < 3 then Inr []
      else case lib_delaunay_simplices lib coords of
        Inl e \<Rightarrow> Inl e
      | Inr simplices \<Rightarrow>
          (case fermat_loop coords max_candidates simplices [] of
             Inl e \<Rightarrow> Inl e
           | Inr candidates \<Rightarrow>
               if candidates = [] then Inr []
               else if 1 < length candidates then separation_filter lib candidates
               else Inr candidates))"

text \<open>The greedy filter on its own.\<close>

fun greedy_keep :: "point list \<Rightarrow> point list \<Rightarrow> point list" where
  "greedy_keep kept [] = kept"
| "greedy_keep kept (pt # pts) =
     greedy_keep
       (if \<forall>q \<in> set kept. MIN_CANDIDATE_SEPARATION \<le> haversine pt q then kept @ [pt] else kept)
       pts"

lemma separation_step_eq:
  "separation_step pt (kept, kept) =
     (let kept' = (if \<forall>q \<in> set kept. MIN_CANDIDATE_SEPARATION \<le> haversine pt q
                   then kept @ [pt] else kept)
      in (kept', kept'))"
  by (cases kept) (simp_all add: separation_step_def haversine_vec_def Let_def)

lemma fold_separation_step:
  "fold separation_step pts (kept, kept) = (greedy_keep kept pts, greedy_keep kept pts)"
proof (induction pts arbitrary: kept)
  case Nil
  then show ?case by simp
next
  case (Cons pt pts)
  show ?case
    by (simp only: fold_Cons o_apply separation_step_eq Let_def Cons.IH greedy_keep.simps)
qed

definition separated :: "point list \<Rightarrow> bool" where
  "separated ps \<longleftrightarrow>
     (\<forall>i j. i < length ps \<and> j < length ps \<and> i \<noteq> j \<longrightarrow>
        MIN_CANDIDATE_SEPARATION \<le> haversine (ps ! i) (ps ! j))"

lemma separated_iff_sorted_wrt:
  "separated ps \<longleftrightarrow> sorted_wrt (\<lambda>p q. MIN_CANDIDATE_SEPARATION \<le> haversine q p) ps"
proof
  assume s: "separated ps"
  show "sorted_wrt (\<lambda>p q. MIN_CANDIDATE_SEPARATION \<le> haversine q p) ps"
    unfolding sorted_wrt_iff_nth_less using s by (auto simp: separated_def)
next
  assume s: "sorted_wrt (\<lambda>p q. MIN_CANDIDATE_SEPARATION \<le> haversine q p) ps"
  show "separated ps"
    unfolding separated_def
  proof (intro allI impI)
    fix i j
    assume a: "i < length ps \<and> j < length ps \<and> i \<noteq> j"
    then consider "i < j" | "j < i" by linarith
    then show "MIN_CANDIDATE_SEPARATION \<le> haversine (ps ! i) (ps ! j)"
    proof cases
      case 1
      with s a have "MIN_CANDIDATE_SEPARATION \<le> haversine (ps ! j) (ps ! i)"
        by (simp add: sorted_wrt_iff_nth_less)
      then show ?thesis by (simp add: haversine_sym)
    next
      case 2
      with s a show ?thesis by (simp add: sorted_wrt_iff_nth_less)
    qed
  qed
qed

lemma greedy_keep_separated:
  "separated kept \<Longrightarrow> separated (greedy_keep kept pts)"
proof (induction pts arbitrary: kept)
  case Nil
  then show ?case by simp
next
  case (Cons pt pts)
  have "separated (if \<forall>q \<in> set kept. MIN_CANDIDATE_SEPARATION \<le> haversine pt q
                   then kept @ [pt] else kept)"
    using Cons.prems by (auto simp: separated_iff_sorted_wrt sorted_wrt_append)
  from Cons.IH[OF this] show ?case by simp
qed

lemma separated_short: "length ps \<le> 1 \<Longrightarrow> separated ps"
  by (auto simp: separated_def)

lemma separated_Nil: "separated []"
  by (simp add: separated_def)

lemma separation_filter_eq:
  "separation_filter lib cs = Inr out \<Longrightarrow>
     \<exists>cs'. index_rows cs (lib_argsort lib (map fst cs)) = Inr cs' \<and> out = greedy_keep [] cs'"
  by (auto simp: separation_filter_def fold_separation_step split: sum.splits)

lemma separation_filter_separated:
  assumes "separation_filter lib cs = Inr out"
  shows "separated out"
proof -
  from separation_filter_eq[OF assms] obtain cs' where "out = greedy_keep [] cs'" by blast
  with greedy_keep_separated[OF separated_Nil] show ?thesis by simp
qed

lemma generate_voronoi_separated:
  assumes "generate_voronoi_candidates lib coords = Inr out"
  shows "separated out"
proof -
  have short: "separated ([] :: point list)" by (rule separated_Nil)
  from assms show ?thesis
    unfolding generate_voronoi_candidates_def Let_def
    by (auto split: if_splits sum.splits
             intro: separated_Nil separated_short separation_filter_separated)
qed

lemma generate_fermat_separated:
  assumes "generate_fermat_candidates lib coords max_candidates = Inr out"
  shows "separated out"
  using assms unfolding generate_fermat_candidates_def
  by (auto split: if_splits sum.splits
           intro: separated_Nil separated_short separation_filter_separated)

text \<open>The post-processing in the words of the specification: the greedy
  minimum-separation filter over the candidates in the order of their latitudes.\<close>

definition min_separation_filter :: "geometry_lib \<Rightarrow> point list \<Rightarrow> py_error + point list" where
  "min_separation_filter lib cs =
     (if length cs \<le> 1 then Inr cs
      else case index_rows cs (lib_argsort lib (map fst cs)) of
             Inl e \<Rightarrow> Inl e
           | Inr sorted_cs \<Rightarrow> Inr (greedy_keep [] sorted_cs))"

lemma separation_filter_greedy:
  "separation_filter lib cs =
     (case index_rows cs (lib_argsort lib (map fst cs)) of
        Inl e \<Rightarrow> Inl e
      | Inr sorted_cs \<Rightarrow> Inr (greedy_keep [] sorted_cs))"
  by (simp add: separation_filter_def fold_separation_step split: sum.splits)

lemma voronoi_filtered_Nil: "voronoi_filtered lib coords [] = []"
  by (simp add: voronoi_filtered_def haversine_vec_def Let_def split: option.splits)

lemma np_unique_rows_Nil: "np_unique_rows [] = []"
  by (simp add: np_unique_rows_def)

subsection \<open>Examples\<close>

text \<open>A stand-in for the library on the examples: three Voronoi vertices, two of them
  equal; one triangle on three points and two triangles on six; a partition that reports
  the distances 8, 8 and 300 for every vertex; and the stable sort.\<close>

definition ex_lib :: geometry_lib where
  "ex_lib =
     \<lparr>lib_voronoi_vertices = (\<lambda>coords. Inr [(45, 4 / 3), (- 45, 4 / 3), (45, 4 / 3)]),
      lib_delaunay_simplices =
        (\<lambda>coords. Inr (if length coords = 3 then [[0, 1, 2]] else [[0, 1, 2], [3, 4, 5]])),
      lib_partition2 = (\<lambda>row. [8, 8, 300]),
      lib_argsort = (\<lambda>xs. map snd (sort_key fst (zip xs [0..<length xs])))\<rparr>"

definition ex_coords3 :: "point list" where
  "ex_coords3 = [(0, 0), (3, 0), (0, 4)]"

definition ex_coords6 :: "point list" where
  "ex_coords6 = [(- 46, 0), (- 43, 0), (- 46, 4), (44, 0), (47, 0), (44, 4)]"

lemma sqrt_25: "sqrt 25 = 5" and sqrt_16: "sqrt 16 = 4" and sqrt_9: "sqrt 9 = 3"
  by (rule real_sqrt_unique; simp)+

lemma fermat_345:
  "fermat_torricelli_point [(x, y), (x + 3, y), (x, y + 4)] = Inr (x + 1, y + 4 / 3)"
  by (simp add: fermat_torricelli_point_def norm2_def Let_def sqrt_25 sqrt_16 sqrt_9 power2_eq_square)

lemma haversine_quarter: "haversine (45, x) (- 45, x) = 6371000 * (pi / 2)"
proof -
  have r: "(radians (- 45) - radians 45) / 2 = - (pi / 4)"
    by (simp add: radians_def)
  have s: "(sin (- (pi / 4)))\<^sup>2 = 1 / 2"
    by (simp add: sin_45 power2_eq_square)
  have a: "arctan2 (sqrt (1 / 2)) (sqrt (1 / 2)) = pi / 4"
    by (simp add: arctan2_def arctan_one)
  show ?thesis
    unfolding haversine_def Let_def fst_conv snd_conv r s
    by (simp add: a)
qed

lemma far_apart: "10 \<le> haversine (45, x) (- 45, x)"
proof -
  have "(10::real) \<le> 6371000 * (2 / 2)" by simp
  also have "\<dots> \<le> 6371000 * (pi / 2)" using pi_ge_two by simp
  finally show ?thesis by (simp only: haversine_quarter)
qed

lemma fermat_ex3: "fermat_torricelli_point [(0, 0), (3, 0), (0, 4)] = Inr (1, 4 / 3)"
  using fermat_345[of 0 0] by simp

lemma fermat_ex6a: "fermat_torricelli_point [(- 46, 0), (- 43, 0), (- 46, 4)] = Inr (- 45, 4 / 3)"
  using fermat_345[of "- 46" 0] by simp

lemma fermat_ex6b: "fermat_torricelli_point [(44, 0), (47, 0), (44, 4)] = Inr (45, 4 / 3)"
  using fermat_345[of 44 0] by simp

lemma argsort_ex: "lib_argsort ex_lib [- 45, 45] = [0, 1]"
  by (simp add: ex_lib_def)

lemma greedy_ex: "greedy_keep [] [(- 45, x), (45, x)] = [(- 45, x), (45, x)]"
  by (simp add: far_apart MIN_CANDIDATE_SEPARATION_def)

lemma generate_fermat_ex3:
  "generate_fermat_candidates ex_lib ex_coords3 100 = Inr [(1, 4 / 3)]"
proof -
  have d: "lib_delaunay_simplices ex_lib ex_coords3 = Inr [[0, 1, 2]]"
    by (simp add: ex_lib_def ex_coords3_def)
  have l: "fermat_loop ex_coords3 100 [[0, 1, 2]] [] = Inr [(1, 4 / 3)]"
    by (simp add: ex_coords3_def index_rows_def fermat_ex3)
  have n: "\<not> length ex_coords3 < 3" by (simp add: ex_coords3_def)
  show ?thesis
    unfolding generate_fermat_candidates_def
    by (simp only: n if_False d sum.case l) simp
qed

lemma generate_fermat_ex6:
  "generate_fermat_candidates ex_lib ex_coords6 100 = Inr [(- 45, 4 / 3), (45, 4 / 3)]"
proof -
  have l: "fermat_loop ex_coords6 100 [[0, 1, 2], [3, 4, 5]] [] = Inr [(- 45, 4 / 3), (45, 4 / 3)]"
    by (simp add: ex_coords6_def index_rows_def fermat_ex6a fermat_ex6b)
  have s: "separation_filter ex_lib [(- 45, 4 / 3), (45, 4 / 3)] = Inr [(- 45, 4 / 3), (45, 4 / 3)]"
    unfolding separation_filter_greedy
    by (simp add: argsort_ex index_rows_def far_apart MIN_CANDIDATE_SEPARATION_def)
  have d: "lib_delaunay_simplices ex_lib ex_coords6 = Inr [[0, 1, 2], [3, 4, 5]]"
    by (simp add: ex_lib_def ex_coords6_def)
  have n: "\<not> length ex_coords6 < 3" by (simp add: ex_coords6_def)
  show ?thesis
    unfolding generate_fermat_candidates_def
    by (simp only: n if_False d sum.case l) (simp add: s)
qed

lemma np_round6_ex: "np_round6 (4 / 3) = 1333333 / 1000000" "np_round6 45 = 45" "np_round6 (- 45) = - 45"
  by (simp_all add: np_round6_def round_half_even_def Let_def)

lemma generate_voronoi_ex6:
  "generate_voronoi_candidates ex_lib ex_coords6 =
     Inr [(- 45, 1333333 / 1000000), (45, 1333333 / 1000000)]"
proof -
  let ?verts = "[(45, 4 / 3), (- 45, 4 / 3), (45, 4 / 3)] :: point list"
  have v: "lib_voronoi_vertices ex_lib ex_coords6 = Inr ?verts"
    by (simp add: ex_lib_def)
  have f: "voronoi_filtered ex_lib ex_coords6 ?verts = ?verts"
    by (simp add: voronoi_filtered_def haversine_vec_def Let_def ex_lib_def
          MIN_DIST_TO_TERMINAL_def MAX_CIRCUMRADIUS_def)
  have u: "np_unique_rows (map np_round6_row ?verts) =
             [(- 45, 1333333 / 1000000), (45, 1333333 / 1000000)]"
    by (simp add: np_unique_rows_def np_round6_row_def np_round6_ex)
  have s: "separation_filter ex_lib [(- 45, 1333333 / 1000000), (45, 1333333 / 1000000)] =
             Inr [(- 45, 1333333 / 1000000), (45, 1333333 / 1000000)]"
    unfolding separation_filter_greedy
    by (simp add: argsort_ex index_rows_def far_apart MIN_CANDIDATE_SEPARATION_def)
  have n: "\<not> length ex_coords6 < 3" by (simp add: ex_coords6_def)
  show ?thesis
    unfolding generate_voronoi_candidates_def
    by (simp only: n if_False v sum.case f Let_def u) (simp add: s)
qed

section \<open>Separation and post-processing of the candidates\<close>

text \<open>
  C8. For every input coordinate array, whatever either generator returns is a list in
  which every two candidates at different positions are at a great-circle distance of at
  least the minimum separation, 10 metres; and for fewer than 3 input points both
  generators return the empty list.
\<close>

theorem candidates_separated:
  "(\<forall>out. generate_voronoi_candidates lib coords = Inr out \<longrightarrow>
      (\<forall>i j. i < length out \<and> j < length out \<and> i \<noteq> j \<longrightarrow>
         10 \<le> haversine (out ! i) (out ! j))) \<and>
   (\<forall>out. generate_fermat_candidates lib coords max_candidates = Inr out \<longrightarrow>
      (\<forall>i j. i < length out \<and> j < length out \<and> i \<noteq> j \<longrightarrow>
         10 \<le> haversine (out ! i) (out ! j))) \<and>
   (length coords < 3 \<longrightarrow>
      generate_voronoi_candidates lib coords = Inr [] \<and>
      generate_fermat_candidates lib coords max_candidates = Inr [])"
proof (intro conjI allI impI)
  fix out i j
  assume "generate_voronoi_candidates lib coords = Inr out"
    and "i < length out \<and> j < length out \<and> i \<noteq> j"
  with generate_voronoi_separated show "10 \<le> haversine (out ! i) (out ! j)"
    unfolding separated_def MIN_CANDIDATE_SEPARATION_def by blast
next
  fix out i j
  assume "generate_fermat_candidates lib coords max_candidates = Inr out"
    and "i < length out \<and> j < length out \<and> i \<noteq> j"
  with generate_fermat_separated show "10 \<le> haversine (out ! i) (out ! j)"
    unfolding separated_def MIN_CANDIDATE_SEPARATION_def by blast
next
  assume "length coords < 3"
  then show "generate_voronoi_candidates lib coords = Inr []"
    by (simp add: generate_voronoi_candidates_def)
next
  assume "length coords < 3"
  then show "generate_fermat_candidates lib coords max_candidates = Inr []"
    by (simp add: generate_fermat_candidates_def)
qed

theorem candidates_separated_witness:
  "generate_voronoi_candidates ex_lib ex_coords6 =
     Inr [(- 45, 1333333 / 1000000), (45, 1333333 / 1000000)] \<and>
   10 \<le> haversine (- 45, 1333333 / 1000000) (45, 1333333 / 1000000) \<and>
   generate_fermat_candidates ex_lib ex_coords6 100 = Inr [(- 45, 4 / 3), (45, 4 / 3)] \<and>
   10 \<le> haversine (- 45, 4 / 3) (45, 4 / 3) \<and>
   length ([] :: point list) < 3 \<and>
   generate_voronoi_candidates ex_lib [] = Inr [] \<and>
   generate_fermat_candidates ex_lib [] 100 = Inr []"
proof -
  let ?v = "[(- 45, 1333333 / 1000000), (45, 1333333 / 1000000)] :: point list"
  let ?f = "[(- 45, 4 / 3), (45, 4 / 3)] :: point list"
  have idx: "(0::nat) < length ?v \<and> (1::nat) < length ?v \<and> (0::nat) \<noteq> 1"
    "(0::nat) < length ?f \<and> (1::nat) < length ?f \<and> (0::nat) \<noteq> 1"
    by simp_all
  from candidates_separated[of ex_lib ex_coords6 100] generate_voronoi_ex6 idx(1)
  have "10 \<le> haversine (?v ! 0) (?v ! 1)" by blast
  then have a: "10 \<le> haversine (- 45, 1333333 / 1000000) (45, 1333333 / 1000000)" by simp
  from candidates_separated[of ex_lib ex_coords6 100] generate_fermat_ex6 idx(2)
  have "10 \<le> haversine (?f ! 0) (?f ! 1)" by blast
  then have b: "10 \<le> haversine (- 45, 4 / 3) (45, 4 / 3)" by simp
  have c: "length ([] :: point list) < 3" by simp
  with candidates_separated[of ex_lib "[]" 100]
  have d: "generate_voronoi_candidates ex_lib [] = Inr []"
    "generate_fermat_candidates ex_lib [] 100 = Inr []" by blast+
  from generate_voronoi_ex6 a generate_fermat_ex6 b c d show ?thesis by blast
qed

text \<open>
  C9 (as amended). Both strategies end with the greedy minimum-separation filter over
  the candidates in the order of their latitudes, which leaves a list of at most one
  candidate as it is. Only the Voronoi strategy applies the rounding-based deduplication
  at 6 decimals before it; the Fermat strategy filters the Fermat points as they are
  and returns them unrounded.
\<close>

theorem candidate_post_processing:
  "(\<forall>out. generate_voronoi_candidates lib coords = Inr out \<longrightarrow>
      (length coords < 3 \<and> out = []) \<or>
      (\<exists>verts. lib_voronoi_vertices lib coords = Inr verts \<and>
         min_separation_filter lib
           (np_unique_rows (map np_round6_row (voronoi_filtered lib coords verts))) = Inr out)) \<and>
   (\<forall>out. generate_fermat_candidates lib coords max_candidates = Inr out \<longrightarrow>
      (length coords < 3 \<and> out = []) \<or>
      (\<exists>simplices raw. lib_delaunay_simplices lib coords = Inr simplices \<and>
         fermat_loop coords max_candidates simplices [] = Inr raw \<and>
         min_separation_filter lib raw = Inr out))"
proof (intro conjI allI impI)
  fix out
  assume run: "generate_voronoi_candidates lib coords = Inr out"
  show "(length coords < 3 \<and> out = []) \<or>
      (\<exists>verts. lib_voronoi_vertices lib coords = Inr verts \<and>
         min_separation_filter lib
           (np_unique_rows (map np_round6_row (voronoi_filtered lib coords verts))) = Inr out)"
  proof (cases "length coords < 3")
    case True
    with run show ?thesis by (simp add: generate_voronoi_candidates_def)
  next
    case False
    with run obtain verts where v: "lib_voronoi_vertices lib coords = Inr verts"
      by (auto simp: generate_voronoi_candidates_def split: sum.splits)
    let ?raw = "voronoi_filtered lib coords verts"
    let ?u = "np_unique_rows (map np_round6_row ?raw)"
    have "min_separation_filter lib ?u = Inr out"
    proof (cases "verts = []")
      case True
      with run False v have "out = []" by (simp add: generate_voronoi_candidates_def)
      with True show ?thesis
        by (simp add: voronoi_filtered_Nil np_unique_rows_Nil min_separation_filter_def)
    next
      case nv: False
      show ?thesis
      proof (cases "?raw = []")
        case True
        with run False v nv have "out = []"
          by (simp add: generate_voronoi_candidates_def Let_def)
        with True show ?thesis
          by (simp add: np_unique_rows_Nil min_separation_filter_def)
      next
        case nr: False
        show ?thesis
        proof (cases "length ?u \<le> 1")
          case True
          with run False v nv nr have "out = ?u"
            by (simp add: generate_voronoi_candidates_def Let_def)
          with True show ?thesis by (simp add: min_separation_filter_def)
        next
          case long: False
          with run False v nv nr have "separation_filter lib ?u = Inr out"
            by (simp add: generate_voronoi_candidates_def Let_def)
          with long show ?thesis
            by (simp add: min_separation_filter_def separation_filter_greedy)
        qed
      qed
    qed
    with v show ?thesis by blast
  qed
next
  fix out
  assume run: "generate_fermat_candidates lib coords max_candidates = Inr out"
  show "(length coords < 3 \<and> out = []) \<or>
      (\<exists>simplices raw. lib_delaunay_simplices lib coords = Inr simplices \<and>
         fermat_loop coords max_candidates simplices [] = Inr raw \<and>
         min_separation_filter lib raw = Inr out)"
  proof (cases "length coords < 3")
    case True
    with run show ?thesis by (simp add: generate_fermat_candidates_def)
  next
    case False
    with run obtain simplices raw where
      d: "lib_delaunay_simplices lib coords = Inr simplices" and
      l: "fermat_loop coords max_candidates simplices [] = Inr raw"
      by (auto simp: generate_fermat_candidates_def split: sum.splits)
    have "min_separation_filter lib raw = Inr out"
    proof (cases "1 < length raw")
      case True
      with run False d l have "separation_filter lib raw = Inr out"
        by (auto simp: generate_fermat_candidates_def split: if_splits)
      with True show ?thesis
        by (simp add: min_separation_filter_def separation_filter_greedy)
    next
      case short: False
      with run False d l have "out = raw"
        by (auto simp: generate_fermat_candidates_def split: if_splits)
      with short show ?thesis by (simp add: min_separation_filter_def)
    qed
    with d l show ?thesis by blast
  qed
qed

theorem candidate_post_processing_witness:
  "generate_voronoi_candidates ex_lib ex_coords6 =
     Inr [(- 45, 1333333 / 1000000), (45, 1333333 / 1000000)] \<and>
   min_separation_filter ex_lib
     (np_unique_rows (map np_round6_row
        (voronoi_filtered ex_lib ex_coords6 [(45, 4 / 3), (- 45, 4 / 3), (45, 4 / 3)]))) =
     Inr [(- 45, 1333333 / 1000000), (45, 1333333 / 1000000)] \<and>
   generate_fermat_candidates ex_lib ex_coords6 100 = Inr [(- 45, 4 / 3), (45, 4 / 3)] \<and>
   fermat_loop ex_coords6 100 [[0, 1, 2], [3, 4, 5]] [] = Inr [(- 45, 4 / 3), (45, 4 / 3)] \<and>
   min_separation_filter ex_lib [(- 45, 4 / 3), (45, 4 / 3)] = Inr [(- 45, 4 / 3), (45, 4 / 3)]"
proof -
  have n: "\<not> length ex_coords6 < 3" by (simp add: ex_coords6_def)
  have v: "lib_voronoi_vertices ex_lib ex_coords6 = Inr [(45, 4 / 3), (- 45, 4 / 3), (45, 4 / 3)]"
    by (simp add: ex_lib_def)
  have d: "lib_delaunay_simplices ex_lib ex_coords6 = Inr [[0, 1, 2], [3, 4, 5]]"
    by (simp add: ex_lib_def ex_coords6_def)
  from candidate_post_processing[of ex_lib ex_coords6 100] generate_voronoi_ex6 n
  obtain verts where
    "lib_voronoi_vertices ex_lib ex_coords6 = Inr verts"
    "min_separation_filter ex_lib
       (np_unique_rows (map np_round6_row (voronoi_filtered ex_lib ex_coords6 verts))) =
     Inr [(- 45, 1333333 / 1000000), (45, 1333333 / 1000000)]"
    by blast
  with v have a: "min_separation_filter ex_lib
       (np_unique_rows (map np_round6_row
          (voronoi_filtered ex_lib ex_coords6 [(45, 4 / 3), (- 45, 4 / 3), (45, 4 / 3)]))) =
     Inr [(- 45, 1333333 / 1000000), (45, 1333333 / 1000000)]"
    by (simp only: sum.inject)
  from candidate_post_processing[of ex_lib ex_coords6 100] generate_fermat_ex6 n
  obtain simplices raw where
    "lib_delaunay_simplices ex_lib ex_coords6 = Inr simplices"
    "fermat_loop ex_coords6 100 simplices [] = Inr raw"
    "min_separation_filter ex_lib raw = Inr [(- 45, 4 / 3), (45, 4 / 3)]"
    by blast
  with d have l: "fermat_loop ex_coords6 100 [[0, 1, 2], [3, 4, 5]] [] = Inr raw"
    and m: "min_separation_filter ex_lib raw = Inr [(- 45, 4 / 3), (45, 4 / 3)]"
    by (simp_all only: sum.inject)
  have "fermat_loop ex_coords6 100 [[0, 1, 2], [3, 4, 5]] [] = Inr [(- 45, 4 / 3), (45, 4 / 3)]"
    by (simp add: ex_coords6_def index_rows_def fermat_ex6a fermat_ex6b)
  with l have "raw = [(- 45, 4 / 3), (45, 4 / 3)]" by (simp only: sum.inject)
  with l m generate_voronoi_ex6 a generate_fermat_ex6 show ?thesis by blast
qed

text \<open>
  The claim as it was stated fails for the Fermat strategy: the centroid of the triangle
  (0, 0), (3, 0), (0, 4) is returned with the longitude 4/3, which the rounding-based
  deduplication would have turned into 1.333333.
\<close>

theorem fermat_unrounded_counterexample:
  "generate_fermat_candidates ex_lib ex_coords3 100 = Inr [(1, 4 / 3)] \<and>
   np_unique_rows (map np_round6_row [(1, 4 / 3)]) = [(1, 1333333 / 1000000)] \<and>
   (4 / 3 :: real) \<noteq> 1333333 / 1000000"
  by (simp add: generate_fermat_ex3 np_unique_rows_def np_round6_row_def np_round6_def
        round_half_even_def Let_def)

section \<open>\<^verbatim>\<open>compute_mst\<close> from the parsed request\<close>

text \<open>The whole function, on what \<^verbatim>\<open>parse_input\<close> returns: the candidates are the Fermat
  points, the poles take the indices after the input points, and \<^verbatim>\<open>cdist\<close> fills the
  distance matrix with \<^verbatim>\<open>haversine_meters\<close>.\<close>

definition compute_mst ::
  "geometry_lib \<Rightarrow> point list \<Rightarrow> node list \<Rightarrow> node \<Rightarrow> (string \<rightharpoonup> real) \<Rightarrow> bool \<Rightarrow>
     py_error + mst_output" where
  "compute_mst lib coords terminal_indices source_idx costs debug =
     (case generate_fermat_candidates lib coords 100 of
        Inl e \<Rightarrow> Inl e
      | Inr candidates \<Rightarrow>
          (let extended_coords = (if 0 < length candidates then coords @ candidates else coords);
               pole_start_idx = length coords;
               pole_indices = (if 0 < length candidates
                               then [pole_start_idx..<length extended_coords] else []);
               dist_matrix =
                 map (\<lambda>u. map (\<lambda>v. haversine_meters (fst u) (snd u) (fst v) (snd v))
                               extended_coords)
                     extended_coords
           in compute_mst_core source_idx terminal_indices pole_indices pole_start_idx
                (length extended_coords) dist_matrix costs debug))"

lemma build_no_poles:
  "build_directed_graph_for_arborescence s T [] m costs = Inr empty_digraph"
  by (simp add: build_directed_graph_for_arborescence_def)

lemma compute_mst_core_no_poles:
  "compute_mst_core s T [] k n m costs debug = Inl NetworkXPointlessConcept"
  by (rule compute_mst_core_no_edges[OF build_no_poles]) (simp add: empty_digraph_def)

lemma compute_mst_few_points:
  assumes "length coords < 3"
  shows "compute_mst lib coords T s costs debug = Inl NetworkXPointlessConcept"
  using assms
  by (simp add: compute_mst_def generate_fermat_candidates_def compute_mst_core_no_poles)

lemma compute_mst_indices_disjoint:
  assumes "\<forall>t \<in> set terminal_indices. t < length coords"
  shows "set [length coords..<n] \<inter> set terminal_indices = {}"
  using assms by fastforce

text \<open>
  C4. A request of two points, which the input normalisation accepts, yields no candidate
  pole and hence a candidate graph with no edge. The builder adds nodes only with edges,
  so the graph has no node, the source included, and the solver raises
  \<^verbatim>\<open>NetworkXPointlessConcept\<close>: \<^verbatim>\<open>compute_mst\<close> fails where the claim has it return the
  source alone.
\<close>

theorem compute_mst_two_points_raises:
  "generate_fermat_candidates ex_lib [(0, 0), (0, 0.001)] 100 = Inr [] \<and>
   build_directed_graph_for_arborescence 0 [1] []
     [[haversine_meters 0 0 0 0, haversine_meters 0 0 0 0.001],
      [haversine_meters 0 0.001 0 0, haversine_meters 0 0.001 0 0.001]] Map.empty =
     Inr empty_digraph \<and>
   0 \<notin> set (nodes empty_digraph) \<and>
   minimum_spanning_arborescence empty_digraph = Inl NetworkXPointlessConcept \<and>
   compute_mst ex_lib [(0, 0), (0, 0.001)] [1] 0 Map.empty False = Inl NetworkXPointlessConcept"
proof -
  have "length [(0, 0), (0, 0.001 :: real)] < 3" by simp
  then have "compute_mst ex_lib [(0, 0), (0, 0.001)] [1] 0 Map.empty False =
      Inl NetworkXPointlessConcept"
    by (rule compute_mst_few_points)
  moreover have "generate_fermat_candidates ex_lib [(0, 0), (0, 0.001)] 100 = Inr []"
    by (simp add: generate_fermat_candidates_def)
  moreover have "minimum_spanning_arborescence empty_digraph = Inl NetworkXPointlessConcept"
    by (simp add: minimum_spanning_arborescence_def empty_digraph_def)
  moreover have "0 \<notin> set (nodes empty_digraph)" by (simp add: empty_digraph_def)
  ultimately show ?thesis by (simp only: build_no_poles simp_thms)
qed

end
